theory Spec2Isabelle
  imports Main
begin

section \<open>The structural metamodel as an object store\<close>

text \<open>
  The metamodel of \<^verbatim>\<open>besser/BUML/metamodel/structural/structural.py\<close> is a graph of
  mutable Python objects compared by identity. An object is modelled by a reference (a
  natural number) into a store that holds one table per class of objects; a method that
  mutates objects takes the store and returns the new one. A Python \<^verbatim>\<open>set\<close> is a list
  without duplicates whose order is the iteration order; \<^verbatim>\<open>add\<close> and \<^verbatim>\<open>discard\<close> keep it so.
\<close>

type_synonym ref = nat

text \<open>
  Every validation failure of the source is a \<^verbatim>\<open>ValueError\<close>; the constructors below name
  the message that is raised. \<open>AttributeError\<close>, \<open>KeyError\<close> and \<open>RecursionError\<close> are the
  interpreter's own exceptions.
\<close>

datatype error =
    InvalidValue          \<comment> \<open>"Invalid value of visibility."\<close>
  | DuplicateName         \<comment> \<open>"... cannot have two ... with the same name"\<close>
  | SelfGeneralization    \<comment> \<open>"A class cannot be a generalization of itself."\<close>
  | ArityViolation        \<comment> \<open>"An association must have more than one end."\<close>
  | InvalidOwner          \<comment> \<open>"Invalid owner."\<close>
  | InvalidType           \<comment> \<open>"Invalid type."\<close>
  | AttributeError
  | KeyError
  | RecursionError

text \<open>The eight module-level \<^verbatim>\<open>PrimitiveDataType\<close> objects.\<close>

datatype primitive =
    StringType | IntegerType | FloatType | BooleanType
  | TimeType | DateType | DateTimeType | TimeDeltaType

text \<open>
  A reference to a \<^verbatim>\<open>Type\<close> object, tagged with its Python class: a \<^verbatim>\<open>Class\<close>, an
  \<^verbatim>\<open>Enumeration\<close>, one of the primitive singletons, a plain \<^verbatim>\<open>DataType\<close>, or a plain
  \<^verbatim>\<open>Type\<close>.
\<close>

datatype type_ref =
    ClassRef ref
  | EnumRef ref
  | PrimitiveRef primitive
  | DataTypeRef ref
  | PlainTypeRef ref

text \<open>The owner of a property: unset (\<^verbatim>\<open>None\<close>), a type, or an association.\<close>

datatype owner_ref = NoOwner | TypeOwner type_ref | AssocOwner ref

record class_obj =
  c_name :: string
  c_attributes :: "ref list"
  c_associations :: "ref list"
  c_generalizations :: "ref list"

record property_obj =
  p_name :: string
  p_type :: type_ref
  p_owner :: owner_ref
  p_is_composite :: bool
  p_is_id :: bool

text \<open>
  \<open>a_ends\<close> is \<open>None\<close> until the ends setter has stored a set: \<^verbatim>\<open>hasattr(self, "ends")\<close>
  is false until then. The same holds for the two fields of a generalization, which are
  references to classes (\<^verbatim>\<open>general: Class\<close>, \<^verbatim>\<open>specific: Class\<close>).
\<close>

record association_obj =
  a_name :: string
  a_ends :: "ref list option"

record generalization_obj =
  general :: "ref option"
  specific :: "ref option"

record enumeration_obj =
  e_name :: string
  e_literals :: "ref list"

record literal_obj =
  l_name :: string
  l_owner :: "type_ref option"

record store =
  classes :: "ref \<Rightarrow> class_obj"
  props :: "ref \<Rightarrow> property_obj"
  assocs :: "ref \<Rightarrow> association_obj"
  gens :: "ref \<Rightarrow> generalization_obj"
  enums :: "ref \<Rightarrow> enumeration_obj"
  lits :: "ref \<Rightarrow> literal_obj"
  plain_types :: "ref \<Rightarrow> string"
  next_plain_type :: ref
  data_types :: "ref \<Rightarrow> string"
  packages :: "ref \<Rightarrow> string"
  constraints :: "ref \<Rightarrow> string"

text \<open>The result of a mutating method: the exception raised, if any, and the store it leaves.\<close>

type_synonym outcome = "error option \<times> store"

subsection \<open>Python sets\<close>

definition py_add :: "'a \<Rightarrow> 'a list \<Rightarrow> 'a list" where
  "py_add x xs = (if x \<in> set xs then xs else xs @ [x])"

definition py_discard :: "'a \<Rightarrow> 'a list \<Rightarrow> 'a list" where
  "py_discard x xs = removeAll x xs"

fun py_update :: "'a list \<Rightarrow> 'a list \<Rightarrow> 'a list" where
  "py_update xs [] = xs"
| "py_update xs (y # ys) = py_update (py_add y xs) ys"

subsection \<open>Class: the back-reference sets\<close>

definition Class_add_generalization :: "store \<Rightarrow> ref \<Rightarrow> ref \<Rightarrow> store" where
  "Class_add_generalization h c g =
     h\<lparr>classes := (classes h)
        (c := (classes h c)\<lparr>c_generalizations := py_add g (c_generalizations (classes h c))\<rparr>)\<rparr>"

definition Class_delete_generalization :: "store \<Rightarrow> ref \<Rightarrow> ref \<Rightarrow> store" where
  "Class_delete_generalization h c g =
     h\<lparr>classes := (classes h)
        (c := (classes h c)\<lparr>c_generalizations := py_discard g (c_generalizations (classes h c))\<rparr>)\<rparr>"

definition Class_add_association :: "store \<Rightarrow> ref \<Rightarrow> ref \<Rightarrow> store" where
  "Class_add_association h c a =
     h\<lparr>classes := (classes h)
        (c := (classes h c)\<lparr>c_associations := py_add a (c_associations (classes h c))\<rparr>)\<rparr>"

definition Class_delete_association :: "store \<Rightarrow> ref \<Rightarrow> ref \<Rightarrow> store" where
  "Class_delete_association h c a =
     h\<lparr>classes := (classes h)
        (c := (classes h c)\<lparr>c_associations := py_discard a (c_associations (classes h c))\<rparr>)\<rparr>"

subsection \<open>Generalization\<close>

text \<open>
  \<^verbatim>\<open>Generalization.general\<close> setter: drop the back-reference of the old general class when
  the field is already set, add it to the new one, store the field. It has no check.
\<close>

definition Generalization_set_general :: "store \<Rightarrow> ref \<Rightarrow> ref \<Rightarrow> outcome" where
  "Generalization_set_general h g new_general =
     (let h1 = (case general (gens h g) of
                  Some old \<Rightarrow> Class_delete_generalization h old g
                | None \<Rightarrow> h);
          h2 = Class_add_generalization h1 new_general g
      in (None, h2\<lparr>gens := (gens h2)(g := (gens h2 g)\<lparr>general := Some new_general\<rparr>)\<rparr>))"

text \<open>
  \<^verbatim>\<open>Generalization.specific\<close> setter: reading \<^verbatim>\<open>self.general\<close> raises \<open>AttributeError\<close>
  while that field is unset; a specific class equal to the general one is rejected before
  anything is changed.
\<close>

definition Generalization_set_specific :: "store \<Rightarrow> ref \<Rightarrow> ref \<Rightarrow> outcome" where
  "Generalization_set_specific h g new_specific =
     (case general (gens h g) of
        None \<Rightarrow> (Some AttributeError, h)
      | Some gen \<Rightarrow>
          if new_specific = gen then (Some SelfGeneralization, h)
          else
            (let h1 = (case specific (gens h g) of
                         Some old \<Rightarrow> Class_delete_generalization h old g
                       | None \<Rightarrow> h);
                 h2 = Class_add_generalization h1 new_specific g
             in (None, h2\<lparr>gens := (gens h2)(g := (gens h2 g)\<lparr>specific := Some new_specific\<rparr>)\<rparr>)))"

text \<open>
  \<^verbatim>\<open>Generalization.__init__\<close> on the new object \<open>g\<close>: first the general setter, then the
  specific setter. An exception of the second leaves what the first has done.
\<close>

definition Generalization_init :: "store \<Rightarrow> ref \<Rightarrow> ref \<Rightarrow> ref \<Rightarrow> outcome" where
  "Generalization_init h g general_cls specific_cls =
     (case Generalization_set_general h g general_cls of
        (Some e, h1) \<Rightarrow> (Some e, h1)
      | (None, h1) \<Rightarrow> Generalization_set_specific h1 g specific_cls)"

subsection \<open>Enumeration and EnumerationLiteral\<close>

text \<open>\<^verbatim>\<open>EnumerationLiteral.owner\<close> setter: a primitive data type is rejected as owner.\<close>

definition EnumerationLiteral_set_owner :: "store \<Rightarrow> ref \<Rightarrow> type_ref option \<Rightarrow> outcome" where
  "EnumerationLiteral_set_owner h l owner =
     (case owner of
        Some (PrimitiveRef _) \<Rightarrow> (Some InvalidOwner, h)
      | _ \<Rightarrow> (None, h\<lparr>lits := (lits h)(l := (lits h l)\<lparr>l_owner := owner\<rparr>)\<rparr>))"

fun set_literal_owners :: "store \<Rightarrow> ref \<Rightarrow> ref list \<Rightarrow> outcome" where
  "set_literal_owners h e [] = (None, h)"
| "set_literal_owners h e (l # ls) =
     (case EnumerationLiteral_set_owner h l (Some (EnumRef e)) of
        (Some err, h1) \<Rightarrow> (Some err, h1)
      | (None, h1) \<Rightarrow> set_literal_owners h1 e ls)"

text \<open>
  \<^verbatim>\<open>Enumeration.literals\<close> setter: the names are compared as a list against their set;
  then every literal gets the enumeration as owner and the set is stored.
\<close>

definition Enumeration_set_literals :: "store \<Rightarrow> ref \<Rightarrow> ref list option \<Rightarrow> outcome" where
  "Enumeration_set_literals h e literals =
     (case literals of
        Some ls \<Rightarrow>
          (let names = map (\<lambda>l. l_name (lits h l)) ls in
           if length names \<noteq> length (remdups names) then (Some DuplicateName, h)
           else
             (case set_literal_owners h e ls of
                (Some err, h1) \<Rightarrow> (Some err, h1)
              | (None, h1) \<Rightarrow>
                  (None, h1\<lparr>enums := (enums h1)(e := (enums h1 e)\<lparr>e_literals := ls\<rparr>)\<rparr>)))
      | None \<Rightarrow> (None, h\<lparr>enums := (enums h)(e := (enums h e)\<lparr>e_literals := []\<rparr>)\<rparr>))"

text \<open>
  \<^verbatim>\<open>Enumeration.add_literal\<close>: the name is looked up among the names of the present
  literals; if it is new the literal is added to the set. Nothing else is assigned.
\<close>

definition Enumeration_add_literal :: "store \<Rightarrow> ref \<Rightarrow> ref \<Rightarrow> outcome" where
  "Enumeration_add_literal h e literal =
     (if l_name (lits h literal) \<in> set (map (\<lambda>l. l_name (lits h l)) (e_literals (enums h e)))
      then (Some DuplicateName, h)
      else (None, h\<lparr>enums := (enums h)
              (e := (enums h e)\<lparr>e_literals := py_add literal (e_literals (enums h e))\<rparr>)\<rparr>))"

subsection \<open>Property owner and Class.add_attribute\<close>

fun is_DataType :: "type_ref \<Rightarrow> bool" where
  "is_DataType (EnumRef _) = True"
| "is_DataType (PrimitiveRef _) = True"
| "is_DataType (DataTypeRef _) = True"
| "is_DataType (ClassRef _) = False"
| "is_DataType (PlainTypeRef _) = False"

text \<open>\<^verbatim>\<open>Property.owner\<close> setter: an instance of \<^verbatim>\<open>DataType\<close> is rejected.\<close>

definition Property_set_owner :: "store \<Rightarrow> ref \<Rightarrow> owner_ref \<Rightarrow> outcome" where
  "Property_set_owner h p owner =
     (case owner of
        TypeOwner t \<Rightarrow>
          if is_DataType t then (Some InvalidOwner, h)
          else (None, h\<lparr>props := (props h)(p := (props h p)\<lparr>p_owner := owner\<rparr>)\<rparr>)
      | _ \<Rightarrow> (None, h\<lparr>props := (props h)(p := (props h p)\<lparr>p_owner := owner\<rparr>)\<rparr>))"

text \<open>\<^verbatim>\<open>Class.add_attribute\<close>: name check, then the owner, then the insertion.\<close>

definition Class_add_attribute :: "store \<Rightarrow> ref \<Rightarrow> ref \<Rightarrow> outcome" where
  "Class_add_attribute h c attribute =
     (if p_name (props h attribute)
           \<in> set (map (\<lambda>a. p_name (props h a)) (c_attributes (classes h c)))
      then (Some DuplicateName, h)
      else
        (case Property_set_owner h attribute (TypeOwner (ClassRef c)) of
           (Some err, h1) \<Rightarrow> (Some err, h1)
         | (None, h1) \<Rightarrow>
             (None, h1\<lparr>classes := (classes h1)
                (c := (classes h1 c)\<lparr>c_attributes :=
                        py_add attribute (c_attributes (classes h1 c))\<rparr>)\<rparr>)))"

subsection \<open>Association\<close>

text \<open>
  The first loop of the \<^verbatim>\<open>Association.ends\<close> setter:
  \<^verbatim>\<open>for end in self.ends: end.type._delete_association(association=self)\<close>.
  Only a \<^verbatim>\<open>Class\<close> has the method; on any other type the call raises \<open>AttributeError\<close>.
\<close>

fun delete_from_end_types :: "store \<Rightarrow> ref \<Rightarrow> ref list \<Rightarrow> outcome" where
  "delete_from_end_types h a [] = (None, h)"
| "delete_from_end_types h a (e # es) =
     (case p_type (props h e) of
        ClassRef c \<Rightarrow> delete_from_end_types (Class_delete_association h c a) a es
      | _ \<Rightarrow> (Some AttributeError, h))"

text \<open>
  The second loop:
  \<^verbatim>\<open>for end in ends: end.owner = self; end.type._add_association(association=self)\<close>.
\<close>

fun add_to_end_types :: "store \<Rightarrow> ref \<Rightarrow> ref list \<Rightarrow> outcome" where
  "add_to_end_types h a [] = (None, h)"
| "add_to_end_types h a (e # es) =
     (case Property_set_owner h e (AssocOwner a) of
        (Some err, h1) \<Rightarrow> (Some err, h1)
      | (None, h1) \<Rightarrow>
          (case p_type (props h1 e) of
             ClassRef c \<Rightarrow> add_to_end_types (Class_add_association h1 c a) a es
           | _ \<Rightarrow> (Some AttributeError, h1)))"

definition Association_set_ends :: "store \<Rightarrow> ref \<Rightarrow> ref list \<Rightarrow> outcome" where
  "Association_set_ends h a ends =
     (if length ends \<le> 1 then (Some ArityViolation, h)
      else
        (case (case a_ends (assocs h a) of
                 Some old \<Rightarrow> delete_from_end_types h a old
               | None \<Rightarrow> (None, h)) of
           (Some err, h1) \<Rightarrow> (Some err, h1)
         | (None, h1) \<Rightarrow>
             (case add_to_end_types h1 a ends of
                (Some err, h2) \<Rightarrow> (Some err, h2)
              | (None, h2) \<Rightarrow>
                  (None, h2\<lparr>assocs := (assocs h2)(a := (assocs h2 a)\<lparr>a_ends := Some ends\<rparr>)\<rparr>))))"

text \<open>A sequence of assignments \<^verbatim>\<open>a.ends = es\<close>; a rejected one is skipped by the caller.\<close>

fun assign_ends :: "store \<Rightarrow> (ref \<times> ref list) list \<Rightarrow> store" where
  "assign_ends h [] = h"
| "assign_ends h ((a, es) # rest) = assign_ends (snd (Association_set_ends h a es)) rest"

fun is_ClassRef :: "type_ref \<Rightarrow> bool" where
  "is_ClassRef (ClassRef _) = True"
| "is_ClassRef _ = False"

definition end_types :: "store \<Rightarrow> ref list \<Rightarrow> type_ref list" where
  "end_types h es = map (\<lambda>e. p_type (props h e)) es"

definition class_typed :: "store \<Rightarrow> ref list \<Rightarrow> bool" where
  "class_typed h es = list_all is_ClassRef (end_types h es)"

text \<open>
  The back-references of associations are exact: a class references an association exactly
  when one of the stored ends of the association has the class as type; no set holds an
  association twice; stored ends have classes as types.
\<close>

definition association_refs_exact :: "store \<Rightarrow> bool" where
  "association_refs_exact h \<longleftrightarrow>
     (\<forall>c a. a \<in> set (c_associations (classes h c)) \<longleftrightarrow>
        (\<exists>es. a_ends (assocs h a) = Some es \<and> ClassRef c \<in> set (end_types h es)))
     \<and> (\<forall>c. distinct (c_associations (classes h c)))
     \<and> (\<forall>a es. a_ends (assocs h a) = Some es \<longrightarrow> class_typed h es)"

subsection \<open>Class.association_ends\<close>

text \<open>
  The inner loop of \<^verbatim>\<open>Class.association_ends\<close>:
  \<^verbatim>\<open>for end in aends: if end.type == self: ends.discard(end)\<close>.
\<close>

fun discard_own_ends :: "store \<Rightarrow> ref \<Rightarrow> ref list \<Rightarrow> ref list \<Rightarrow> ref list" where
  "discard_own_ends h self [] ends = ends"
| "discard_own_ends h self (e # es) ends =
     discard_own_ends h self es
       (if p_type (props h e) = ClassRef self then py_discard e ends else ends)"

text \<open>
  The outer loop over \<^verbatim>\<open>self.__associations\<close>. Reading the ends of an association that has
  none stored raises \<open>AttributeError\<close>. The set \<^verbatim>\<open>ends\<close> is shared by all iterations.
\<close>

fun association_ends_loop :: "store \<Rightarrow> ref \<Rightarrow> ref list \<Rightarrow> ref list \<Rightarrow> error + ref list" where
  "association_ends_loop h self [] ends = Inr ends"
| "association_ends_loop h self (a # as) ends =
     (case a_ends (assocs h a) of
        None \<Rightarrow> Inl AttributeError
      | Some aends \<Rightarrow>
          (let ends1 = py_update ends aends in
           association_ends_loop h self as
             (if \<not> (length aends = 2
                      \<and> p_type (props h (aends ! 0)) = p_type (props h (aends ! 1)))
              then discard_own_ends h self aends ends1
              else ends1)))"

definition Class_association_ends :: "store \<Rightarrow> ref \<Rightarrow> error + ref list" where
  "Class_association_ends h self = association_ends_loop h self (c_associations (classes h self)) []"

text \<open>The stored ends of an association, none while unset.\<close>

definition ends_of :: "store \<Rightarrow> ref \<Rightarrow> ref list" where
  "ends_of h a = (case a_ends (assocs h a) of Some es \<Rightarrow> es | None \<Rightarrow> [])"

text \<open>No end object belongs to two of the associations.\<close>

definition ends_not_shared :: "store \<Rightarrow> ref list \<Rightarrow> bool" where
  "ends_not_shared h as \<longleftrightarrow>
     (\<forall>a \<in> set as. \<forall>b \<in> set as. a \<noteq> b \<longrightarrow> set (ends_of h a) \<inter> set (ends_of h b) = {})"

text \<open>What one association contributes to the result for the class \<open>c\<close>.\<close>

definition ends_for :: "store \<Rightarrow> ref \<Rightarrow> ref \<Rightarrow> ref set" where
  "ends_for h c a =
     (if length (ends_of h a) = 2
         \<and> p_type (props h (ends_of h a ! 0)) = p_type (props h (ends_of h a ! 1))
      then set (ends_of h a)
      else {e \<in> set (ends_of h a). p_type (props h e) \<noteq> ClassRef c})"

subsection \<open>Class: parents and inherited attributes\<close>

text \<open>
  \<^verbatim>\<open>Class.parents\<close>: the loop over \<^verbatim>\<open>self.__generalizations\<close>; reading the general class of
  a generalization that has none raises \<open>AttributeError\<close>.
\<close>

fun parents_loop :: "store \<Rightarrow> ref \<Rightarrow> ref list \<Rightarrow> ref list \<Rightarrow> error + ref list" where
  "parents_loop h self [] parents = Inr parents"
| "parents_loop h self (g # gs) parents =
     (case general (gens h g) of
        None \<Rightarrow> Inl AttributeError
      | Some p \<Rightarrow> parents_loop h self gs (if p \<noteq> self then py_add p parents else parents))"

definition Class_parents :: "store \<Rightarrow> ref \<Rightarrow> error + ref list" where
  "Class_parents h self = parents_loop h self (c_generalizations (classes h self)) []"

text \<open>
  The loop \<^verbatim>\<open>for parent in self.parents(): all_parents.update(parent.all_parents())\<close>, with
  the recursive call as the parameter \<open>f\<close>.
\<close>

fun update_from_each :: "(ref \<Rightarrow> error + ref list) \<Rightarrow> ref list \<Rightarrow> ref list \<Rightarrow> error + ref list" where
  "update_from_each f [] acc = Inr acc"
| "update_from_each f (p # ps) acc =
     (case f p of
        Inl e \<Rightarrow> Inl e
      | Inr r \<Rightarrow> update_from_each f ps (py_update acc r))"

text \<open>
  \<^verbatim>\<open>Class.all_parents\<close>. The first argument is the number of nested calls the interpreter
  still allows (its recursion limit): a call that would exceed it raises
  \<open>RecursionError\<close>, which is what a recursion that never ends comes to.
\<close>

primrec all_parents :: "nat \<Rightarrow> store \<Rightarrow> ref \<Rightarrow> error + ref list" where
  "all_parents 0 h self = Inl RecursionError"
| "all_parents (Suc d) h self =
     (case Class_parents h self of
        Inl e \<Rightarrow> Inl e
      | Inr ps \<Rightarrow> update_from_each (all_parents d h) ps (py_update [] ps))"

text \<open>\<^verbatim>\<open>Class.inherited_attributes\<close> and \<^verbatim>\<open>Class.all_attributes\<close>.\<close>

fun update_attributes :: "store \<Rightarrow> ref list \<Rightarrow> ref list \<Rightarrow> ref list" where
  "update_attributes h [] inherited = inherited"
| "update_attributes h (parent # ps) inherited =
     update_attributes h ps (py_update inherited (c_attributes (classes h parent)))"

definition inherited_attributes :: "nat \<Rightarrow> store \<Rightarrow> ref \<Rightarrow> error + ref list" where
  "inherited_attributes d h self =
     (case all_parents d h self of
        Inl e \<Rightarrow> Inl e
      | Inr ps \<Rightarrow> Inr (update_attributes h ps []))"

definition all_attributes :: "nat \<Rightarrow> store \<Rightarrow> ref \<Rightarrow> error + ref list" where
  "all_attributes d h self =
     (case inherited_attributes d h self of
        Inl e \<Rightarrow> Inl e
      | Inr inherited \<Rightarrow> Inr (py_update (c_attributes (classes h self)) inherited))"

text \<open>
  The direct parents as a relation: \<open>(p, c)\<close> when \<open>p\<close> is in \<^verbatim>\<open>c.parents()\<close>. Every
  generalization that a class references has its general class set in every store that
  the constructor and the two setters produce.
\<close>

definition generals_set :: "store \<Rightarrow> bool" where
  "generals_set h \<longleftrightarrow>
     (\<forall>c g. g \<in> set (c_generalizations (classes h c)) \<longrightarrow> general (gens h g) \<noteq> None)"

definition parent_rel :: "store \<Rightarrow> (ref \<times> ref) set" where
  "parent_rel h = {(p, c). \<exists>ps. Class_parents h c = Inr ps \<and> p \<in> set ps}"

subsection \<open>TypedElement\<close>

text \<open>The names the eight primitive objects are constructed with.\<close>

fun primitive_name :: "primitive \<Rightarrow> string" where
  "primitive_name StringType = ''str''"
| "primitive_name IntegerType = ''int''"
| "primitive_name FloatType = ''float''"
| "primitive_name BooleanType = ''bool''"
| "primitive_name TimeType = ''time''"
| "primitive_name DateType = ''date''"
| "primitive_name DateTimeType = ''datetime''"
| "primitive_name TimeDeltaType = ''timedelta''"

text \<open>The class attribute \<^verbatim>\<open>TypedElement.type_mapping\<close>, entry by entry.\<close>

definition type_mapping :: "(string \<times> primitive) list" where
  "type_mapping =
     [(''str'', StringType),
      (''string'', StringType),
      (''int'', IntegerType),
      (''float'', FloatType),
      (''bool'', BooleanType),
      (''time'', TimeType),
      (''date'', DateType),
      (''datetime'', DateTimeType),
      (''timedelta'', TimeDeltaType)]"

text \<open>The argument \<^verbatim>\<open>type: Union[Type, str]\<close>; \<open>OtherArg\<close> is any other Python value.\<close>

datatype type_arg = TypeArg type_ref | StrArg string | OtherArg

record typed_element =
  te_name :: string
  te_visibility :: string
  te_type :: type_ref

text \<open>\<^verbatim>\<open>Type(name)\<close>: a new plain type object.\<close>

definition Type_init :: "store \<Rightarrow> string \<Rightarrow> ref \<times> store" where
  "Type_init h name =
     (next_plain_type h,
      h\<lparr>plain_types := (plain_types h)(next_plain_type h := name),
        next_plain_type := Suc (next_plain_type h)\<rparr>)"

text \<open>
  \<^verbatim>\<open>TypedElement.__init__\<close>: the constructor of \<^verbatim>\<open>NamedElement\<close> runs first and checks
  the visibility; then the type is taken as it is, looked up in \<open>type_mapping\<close>, or
  wrapped in a new \<^verbatim>\<open>Type\<close>.
\<close>

definition TypedElement_init ::
  "store \<Rightarrow> string \<Rightarrow> type_arg \<Rightarrow> string \<Rightarrow> (error + typed_element) \<times> store" where
  "TypedElement_init h name ty visibility =
     (if visibility \<notin> set [''public'', ''private'', ''protected'', ''package'']
      then (Inl InvalidValue, h)
      else
        (case ty of
           TypeArg t \<Rightarrow> (Inr \<lparr>te_name = name, te_visibility = visibility, te_type = t\<rparr>, h)
         | StrArg s \<Rightarrow>
             (case map_of type_mapping s of
                Some p \<Rightarrow>
                  (Inr \<lparr>te_name = name, te_visibility = visibility,
                        te_type = PrimitiveRef p\<rparr>, h)
              | None \<Rightarrow>
                  (let (r, h1) = Type_init h s in
                   (Inr \<lparr>te_name = name, te_visibility = visibility,
                         te_type = PlainTypeRef r\<rparr>, h1)))
         | OtherArg \<Rightarrow> (Inl InvalidType, h)))"

subsection \<open>DomainModel\<close>

record domain_model =
  dm_types :: "type_ref list"
  dm_associations :: "ref list"
  dm_generalizations :: "ref list"
  dm_packages :: "ref list"
  dm_constraints :: "ref list"

definition primitive_data_types :: "type_ref list" where
  "primitive_data_types =
     [PrimitiveRef StringType, PrimitiveRef IntegerType, PrimitiveRef FloatType,
      PrimitiveRef BooleanType, PrimitiveRef TimeType, PrimitiveRef DateType,
      PrimitiveRef DateTimeType, PrimitiveRef TimeDeltaType]"

fun type_name :: "store \<Rightarrow> type_ref \<Rightarrow> string" where
  "type_name h (ClassRef c) = c_name (classes h c)"
| "type_name h (EnumRef e) = e_name (enums h e)"
| "type_name h (PrimitiveRef p) = primitive_name p"
| "type_name h (DataTypeRef d) = data_types h d"
| "type_name h (PlainTypeRef t) = plain_types h t"

text \<open>
  The scan shared by the setters of types, associations and packages: one pass over the
  names with the sets \<^verbatim>\<open>names_seen\<close> and \<^verbatim>\<open>duplicates\<close>; the result is \<^verbatim>\<open>duplicates\<close>.
\<close>

fun scan_names :: "string list \<Rightarrow> string list \<Rightarrow> string list \<Rightarrow> string list" where
  "scan_names [] names_seen duplicates = duplicates"
| "scan_names (n # ns) names_seen duplicates =
     scan_names ns (py_add n names_seen)
       (if n \<in> set names_seen then py_add n duplicates else duplicates)"

definition DomainModel_set_types ::
  "store \<Rightarrow> domain_model \<Rightarrow> type_ref list \<Rightarrow> error option \<times> domain_model" where
  "DomainModel_set_types h dm types =
     (let types1 = py_update types primitive_data_types;
          duplicates = scan_names (map (type_name h) types1) [] []
      in if duplicates \<noteq> [] then (Some DuplicateName, dm)
         else (None, dm\<lparr>dm_types := types1\<rparr>))"

definition DomainModel_set_associations ::
  "store \<Rightarrow> domain_model \<Rightarrow> ref list option \<Rightarrow> error option \<times> domain_model" where
  "DomainModel_set_associations h dm associations =
     (case associations of
        Some as \<Rightarrow>
          (let duplicates = scan_names (map (\<lambda>a. a_name (assocs h a)) as) [] []
           in if duplicates \<noteq> [] then (Some DuplicateName, dm)
              else (None, dm\<lparr>dm_associations := as\<rparr>))
      | None \<Rightarrow> (None, dm\<lparr>dm_associations := []\<rparr>))"

text \<open>The setter of generalizations stores what it is given; it reads no name.\<close>

definition DomainModel_set_generalizations ::
  "store \<Rightarrow> domain_model \<Rightarrow> ref list option \<Rightarrow> error option \<times> domain_model" where
  "DomainModel_set_generalizations h dm generalizations =
     (case generalizations of
        Some gs \<Rightarrow> (None, dm\<lparr>dm_generalizations := gs\<rparr>)
      | None \<Rightarrow> (None, dm\<lparr>dm_generalizations := []\<rparr>))"

definition DomainModel_set_packages ::
  "store \<Rightarrow> domain_model \<Rightarrow> ref list option \<Rightarrow> error option \<times> domain_model" where
  "DomainModel_set_packages h dm pkgs =
     (case pkgs of
        Some ps \<Rightarrow>
          (let duplicates = scan_names (map (packages h) ps) [] []
           in if duplicates \<noteq> [] then (Some DuplicateName, dm)
              else (None, dm\<lparr>dm_packages := ps\<rparr>))
      | None \<Rightarrow> (None, dm\<lparr>dm_packages := []\<rparr>))"

text \<open>The setter of constraints compares the list of names with its set.\<close>

definition DomainModel_set_constraints ::
  "store \<Rightarrow> domain_model \<Rightarrow> ref list option \<Rightarrow> error option \<times> domain_model" where
  "DomainModel_set_constraints h dm cs =
     (case cs of
        Some cl \<Rightarrow>
          (let names = map (constraints h) cl
           in if length names \<noteq> length (remdups names) then (Some DuplicateName, dm)
              else (None, dm\<lparr>dm_constraints := cl\<rparr>))
      | None \<Rightarrow> (None, dm\<lparr>dm_constraints := []\<rparr>))"

subsection \<open>DomainModel.classes_sorted_by_inheritance\<close>

text \<open>\<^verbatim>\<open>DomainModel.get_classes\<close>: the elements of \<^verbatim>\<open>self.types\<close> that are classes.\<close>

fun get_classes :: "type_ref list \<Rightarrow> ref list" where
  "get_classes [] = []"
| "get_classes (ClassRef c # ts) = c # get_classes ts"
| "get_classes (_ # ts) = get_classes ts"






text \<open>\<^verbatim>\<open>Class.specializations\<close>, the counterpart of \<^verbatim>\<open>Class.parents\<close>.\<close>

fun specializations_loop :: "store \<Rightarrow> ref \<Rightarrow> ref list \<Rightarrow> ref list \<Rightarrow> error + ref list" where
  "specializations_loop h self [] specializations = Inr specializations"
| "specializations_loop h self (g # gs) specializations =
     (case specific (gens h g) of
        None \<Rightarrow> Inl AttributeError
      | Some s \<Rightarrow>
          specializations_loop h self gs
            (if s \<noteq> self then py_add s specializations else specializations))"

definition Class_specializations :: "store \<Rightarrow> ref \<Rightarrow> error + ref list" where
  "Class_specializations h self =
     specializations_loop h self (c_generalizations (classes h self)) []"













subsection \<open>Example stores\<close>

definition empty_store :: store where
  "empty_store =
     \<lparr>classes = (\<lambda>_. \<lparr>c_name = [], c_attributes = [], c_associations = [],
                       c_generalizations = []\<rparr>),
      props = (\<lambda>_. \<lparr>p_name = [], p_type = PrimitiveRef StringType, p_owner = NoOwner,
                     p_is_composite = False, p_is_id = False\<rparr>),
      assocs = (\<lambda>_. \<lparr>a_name = [], a_ends = None\<rparr>),
      gens = (\<lambda>_. \<lparr>general = None, specific = None\<rparr>),
      enums = (\<lambda>_. \<lparr>e_name = [], e_literals = []\<rparr>),
      lits = (\<lambda>_. \<lparr>l_name = [], l_owner = None\<rparr>),
      plain_types = (\<lambda>_. []),
      next_plain_type = 0,
      data_types = (\<lambda>_. []),
      packages = (\<lambda>_. []),
      constraints = (\<lambda>_. [])\<rparr>"

text \<open>Two classes 1 and 2 and the generalization 0 built by \<^verbatim>\<open>Generalization(1, 2)\<close>.\<close>

definition store_AB :: store where
  "store_AB = snd (Generalization_init empty_store 0 1 2)"

text \<open>A second generalization 1 between the same two classes.\<close>

definition store_twins :: store where
  "store_twins = snd (Generalization_init store_AB 1 1 2)"

text \<open>An enumeration 0 without literals and a literal 0 named RED that has no owner.\<close>

definition store_RED :: store where
  "store_RED = empty_store\<lparr>lits := (lits empty_store)(0 := \<lparr>l_name = ''RED'', l_owner = None\<rparr>)\<rparr>"

text \<open>
  Two classes 0 and 1 both named Book; the associations 0 and 1 both named writes, the
  association 2 named lends.
\<close>

definition store_lib :: store where
  "store_lib = empty_store
     \<lparr>classes := (classes empty_store)
        (0 := (classes empty_store 0)\<lparr>c_name := ''Book''\<rparr>,
         1 := (classes empty_store 1)\<lparr>c_name := ''Book''\<rparr>),
      assocs := (assocs empty_store)
        (0 := \<lparr>a_name = ''writes'', a_ends = None\<rparr>,
         1 := \<lparr>a_name = ''writes'', a_ends = None\<rparr>,
         2 := \<lparr>a_name = ''lends'', a_ends = None\<rparr>)\<rparr>"

definition empty_model :: domain_model where
  "empty_model = \<lparr>dm_types = [], dm_associations = [], dm_generalizations = [],
                   dm_packages = [], dm_constraints = []\<rparr>"

text \<open>Two elements of a collection share a name.\<close>

definition share_a_name :: "('a \<Rightarrow> string) \<Rightarrow> 'a list \<Rightarrow> bool" where
  "share_a_name name xs = (\<exists>x \<in> set xs. \<exists>y \<in> set xs. x \<noteq> y \<and> name x = name y)"

text \<open>
  The classes 1, 2 and 3; the properties 1 to 4, typed by the classes 1, 2, 2 and 3, and
  the property 5 typed by the class 1.
\<close>

definition store_props :: store where
  "store_props = empty_store
     \<lparr>props := (props empty_store)
        (1 := (props empty_store 1)\<lparr>p_type := ClassRef 1\<rparr>,
         2 := (props empty_store 2)\<lparr>p_type := ClassRef 2\<rparr>,
         3 := (props empty_store 3)\<lparr>p_type := ClassRef 2\<rparr>,
         4 := (props empty_store 4)\<lparr>p_type := ClassRef 3\<rparr>,
         5 := (props empty_store 5)\<lparr>p_type := ClassRef 1\<rparr>)\<rparr>"

text \<open>The association 0 constructed with the ends 1 and 2.\<close>

definition store_assoc :: store where
  "store_assoc = snd (Association_set_ends store_props 0 [1, 2])"

text \<open>
  The association 0 constructed with the ends 1 and 5, both typed by the class 1, and
  then the association 1 constructed with the ends 1 and 2: the property 1 is an end of
  both.
\<close>

definition store_self :: store where
  "store_self = snd (Association_set_ends store_props 0 [1, 5])"

definition store_shared :: store where
  "store_shared = snd (Association_set_ends store_self 1 [1, 2])"

text \<open>The generalizations 0 and 1 between the classes 1 and 2, in both directions.\<close>

definition store_cycle :: store where
  "store_cycle = snd (Generalization_init store_AB 1 2 1)"

text \<open>
  The classes 1, 2 and 3 with one attribute each (11, 12 and 13), and the generalizations
  0 (general 1, specific 2) and 1 (general 2, specific 3), built by the constructor.
\<close>

definition store_classes :: store where
  "store_classes = empty_store
     \<lparr>classes := (classes empty_store)
        (1 := (classes empty_store 1)\<lparr>c_name := ''A'', c_attributes := [11]\<rparr>,
         2 := (classes empty_store 2)\<lparr>c_name := ''B'', c_attributes := [12]\<rparr>,
         3 := (classes empty_store 3)\<lparr>c_name := ''C'', c_attributes := [13]\<rparr>)\<rparr>"

definition store_ABC :: store where
  "store_ABC =
     snd (Generalization_init (snd (Generalization_init store_classes 0 1 2)) 1 2 3)"


section \<open>Properties\<close>

lemma set_py_add [simp]: "set (py_add x xs) = insert x (set xs)"
  by (auto simp: py_add_def)

lemma set_py_discard [simp]: "set (py_discard x xs) = set xs - {x}"
  by (auto simp: py_discard_def)

lemma distinct_py_add [simp]: "distinct xs \<Longrightarrow> distinct (py_add x xs)"
  by (simp add: py_add_def)

lemma distinct_py_discard [simp]: "distinct xs \<Longrightarrow> distinct (py_discard x xs)"
  by (simp add: py_discard_def distinct_removeAll)

lemma set_py_update [simp]: "set (py_update xs ys) = set xs \<union> set ys"
  by (induction ys arbitrary: xs) auto

lemma distinct_py_update [simp]: "distinct xs \<Longrightarrow> distinct (py_update xs ys)"
  by (induction ys arbitrary: xs) auto

subsection \<open>The setters of a generalization\<close>

lemma Generalization_set_specific_atomic:
  "fst (Generalization_set_specific h g c) = Some e \<Longrightarrow> snd (Generalization_set_specific h g c) = h"
  by (auto simp: Generalization_set_specific_def Let_def split: option.splits if_splits)

text \<open>
  C10. The check against self-generalization is in the specific setter only. On a
  generalization \<open>g\<close> whose specific class is \<open>c\<close>, the assignment \<^verbatim>\<open>g.general = c\<close> raises
  nothing and leaves a generalization whose general class equals its specific class,
  referenced from \<open>c\<close>. The general setter raises for no class at all, while the specific
  setter rejects the class that is the general one and changes nothing.
\<close>

theorem general_setter_asymmetric:
  assumes "specific (gens h g) = Some c"
  shows "fst (Generalization_set_general h g c) = None
   \<and> general (gens (snd (Generalization_set_general h g c)) g) = Some c
   \<and> specific (gens (snd (Generalization_set_general h g c)) g) = Some c
   \<and> g \<in> set (c_generalizations (classes (snd (Generalization_set_general h g c)) c))
   \<and> (\<forall>c'. fst (Generalization_set_general h g c') = None)
   \<and> (\<forall>p. general (gens h g) = Some p \<longrightarrow>
        Generalization_set_specific h g p = (Some SelfGeneralization, h))"
  using assms
  by (simp add: Generalization_set_general_def Generalization_set_specific_def
      Class_add_generalization_def Class_delete_generalization_def Let_def
      split: option.splits)

theorem general_setter_asymmetric_witness:
  "specific (gens store_AB 0) = Some 2
   \<and> fst (Generalization_set_general store_AB 0 2) = None
   \<and> general (gens (snd (Generalization_set_general store_AB 0 2)) 0) = Some 2
   \<and> specific (gens (snd (Generalization_set_general store_AB 0 2)) 0) = Some 2
   \<and> Generalization_set_specific store_AB 0 1 = (Some SelfGeneralization, store_AB)"
proof -
  have s: "specific (gens store_AB 0) = Some 2"
    by (simp add: store_AB_def Generalization_init_def Generalization_set_general_def
        Generalization_set_specific_def Class_add_generalization_def empty_store_def Let_def)
  have g: "general (gens store_AB 0) = Some 1"
    by (simp add: store_AB_def Generalization_init_def Generalization_set_general_def
        Generalization_set_specific_def Class_add_generalization_def empty_store_def Let_def)
  from general_setter_asymmetric [OF s] g s show ?thesis by blast
qed

text \<open>
  C4. The constructor \<^verbatim>\<open>Generalization(general=X, specific=X)\<close> on the empty store, with
  \<open>X\<close> the class 1 and the new object the generalization 0: it raises the
  self-generalization error, and the class \<open>X\<close>, which had no generalization, is left with
  a back-reference to the object whose construction failed. The specific field of that
  object is unset, so that \<^verbatim>\<open>X.specializations()\<close> raises \<open>AttributeError\<close> afterwards.
\<close>

theorem self_generalization_leaves_back_reference:
  "fst (Generalization_init empty_store 0 1 1) = Some SelfGeneralization
   \<and> c_generalizations (classes empty_store 1) = []
   \<and> c_generalizations (classes (snd (Generalization_init empty_store 0 1 1)) 1) = [0]
   \<and> specific (gens (snd (Generalization_init empty_store 0 1 1)) 0) = None
   \<and> snd (Generalization_init empty_store 0 1 1) \<noteq> empty_store
   \<and> Class_specializations (snd (Generalization_init empty_store 0 1 1)) 1
       = Inl AttributeError"
proof -
  have a: "c_generalizations (classes (snd (Generalization_init empty_store 0 1 1)) 1) = [0]"
    by (simp add: Generalization_init_def Generalization_set_general_def
        Generalization_set_specific_def Class_add_generalization_def empty_store_def Let_def
        py_add_def)
  have b: "c_generalizations (classes empty_store 1) = []"
    by (simp add: empty_store_def)
  from a b have c: "snd (Generalization_init empty_store 0 1 1) \<noteq> empty_store"
    by auto
  have d: "fst (Generalization_init empty_store 0 1 1) = Some SelfGeneralization"
    by (simp add: Generalization_init_def Generalization_set_general_def
        Generalization_set_specific_def Class_add_generalization_def empty_store_def Let_def)
  have e: "specific (gens (snd (Generalization_init empty_store 0 1 1)) 0) = None"
    by (simp add: Generalization_init_def Generalization_set_general_def
        Generalization_set_specific_def Class_add_generalization_def empty_store_def Let_def)
  have f: "Class_specializations (snd (Generalization_init empty_store 0 1 1)) 1
       = Inl AttributeError"
    by (simp add: Class_specializations_def Generalization_init_def
        Generalization_set_general_def Generalization_set_specific_def
        Class_add_generalization_def empty_store_def Let_def py_add_def)
  from a b c d e f show ?thesis by blast
qed

subsection \<open>Enumeration.add_literal\<close>

lemma Enumeration_add_literal_duplicate:
  "l_name (lits h l) \<in> (\<lambda>x. l_name (lits h x)) ` set (e_literals (enums h e))
   \<Longrightarrow> Enumeration_add_literal h e l = (Some DuplicateName, h)"
  by (simp add: Enumeration_add_literal_def)

lemma Enumeration_add_literal_inserts:
  "l_name (lits h l) \<notin> (\<lambda>x. l_name (lits h x)) ` set (e_literals (enums h e))
   \<Longrightarrow> fst (Enumeration_add_literal h e l) = None
     \<and> set (e_literals (enums (snd (Enumeration_add_literal h e l)) e))
         = insert l (set (e_literals (enums h e)))"
  by (simp add: Enumeration_add_literal_def)

lemma Enumeration_add_literal_keeps_owners:
  "lits (snd (Enumeration_add_literal h e l)) = lits h"
  by (simp add: Enumeration_add_literal_def)

lemma Enumeration_set_literals_sets_owner:
  "l_owner (lits (snd (Enumeration_set_literals store_RED 0 (Some [0]))) 0) = Some (EnumRef 0)"
  by (simp add: Enumeration_set_literals_def EnumerationLiteral_set_owner_def store_RED_def
      empty_store_def Let_def)

lemma Class_add_attribute_sets_owner:
  "p_owner (props (snd (Class_add_attribute empty_store 0 0)) 0) = TypeOwner (ClassRef 0)"
  by (simp add: Class_add_attribute_def Property_set_owner_def empty_store_def)

text \<open>
  C8. \<^verbatim>\<open>E.add_literal(l)\<close> for the enumeration 0 without literals and the literal RED
  without owner: the call succeeds and inserts the literal, and the owner of the literal
  is still unset afterwards.
\<close>

theorem add_literal_leaves_owner_unset:
  "fst (Enumeration_add_literal store_RED 0 0) = None
   \<and> e_literals (enums (snd (Enumeration_add_literal store_RED 0 0)) 0) = [0]
   \<and> l_owner (lits (snd (Enumeration_add_literal store_RED 0 0)) 0) = None"
  by (simp add: Enumeration_add_literal_def store_RED_def empty_store_def py_add_def)

subsection \<open>Resolution of a type given as a string\<close>

lemma primitive_UNIV:
  "(UNIV :: primitive set) = {StringType, IntegerType, FloatType, BooleanType,
     TimeType, DateType, DateTimeType, TimeDeltaType}"
proof -
  have "x \<in> {StringType, IntegerType, FloatType, BooleanType,
     TimeType, DateType, DateTimeType, TimeDeltaType}" for x :: primitive
    by (cases x) simp_all
  then show ?thesis by blast
qed

lemma type_mapping_primitive_name: "map_of type_mapping (primitive_name p) = Some p"
  by (cases p) (simp_all add: type_mapping_def)

lemma type_mapping_keys:
  "fst ` set type_mapping = insert ''string'' (range primitive_name)"
  by (auto simp: type_mapping_def primitive_UNIV)

text \<open>
  C9, as stated, fails at the string \<open>string\<close>: it is none of the eight names of the
  primitive types, and the element gets the shared primitive \<open>StringType\<close>, not a new
  type named \<open>string\<close>; no object is created.
\<close>

theorem string_alias_counterexample:
  "''string'' \<notin> range primitive_name
   \<and> TypedElement_init empty_store ''title'' (StrArg ''string'') ''public''
       = (Inr \<lparr>te_name = ''title'', te_visibility = ''public'',
               te_type = PrimitiveRef StringType\<rparr>, empty_store)"
  by (simp add: TypedElement_init_def type_mapping_def primitive_UNIV)

text \<open>
  C9, amended. With a valid visibility, the construction of a typed element from a
  string \<open>s\<close> succeeds. If \<open>s\<close> is one of the nine keys of the mapping (the eight names
  of the primitive types and the alias \<open>string\<close> of \<open>str\<close>) the type is the shared
  primitive and the store is unchanged; for every other string the type is a new plain
  type named \<open>s\<close>, and nothing else in the store changes.
\<close>

theorem typed_element_string_resolution:
  assumes "visibility \<in> {''public'', ''private'', ''protected'', ''package''}"
  shows "TypedElement_init h name (StrArg s) visibility =
           (if s \<in> insert ''string'' (range primitive_name)
            then (Inr \<lparr>te_name = name, te_visibility = visibility,
                       te_type = PrimitiveRef (if s = ''string'' then StringType
                                               else the_inv primitive_name s)\<rparr>, h)
            else (Inr \<lparr>te_name = name, te_visibility = visibility,
                       te_type = PlainTypeRef (next_plain_type h)\<rparr>,
                  h\<lparr>plain_types := (plain_types h)(next_plain_type h := s),
                    next_plain_type := Suc (next_plain_type h)\<rparr>))"
proof (cases "s \<in> insert ''string'' (range primitive_name)")
  case False
  then have "s \<notin> fst ` set type_mapping" by (simp add: type_mapping_keys)
  then have "map_of type_mapping s = None" by (simp add: map_of_eq_None_iff)
  with False assms show ?thesis
    by (simp add: TypedElement_init_def Type_init_def)
next
  case True
  have inj: "inj primitive_name"
  proof (rule injI)
    fix x y assume "primitive_name x = primitive_name y"
    then show "x = y" by (cases x; cases y) simp_all
  qed
  show ?thesis
  proof (cases "s = ''string''")
    case True
    with assms show ?thesis by (simp add: TypedElement_init_def type_mapping_def)
  next
    case ns: False
    with True obtain p where p: "s = primitive_name p" by auto
    have "the_inv primitive_name s = p" unfolding p by (rule the_inv_f_f [OF inj])
    with True ns p assms show ?thesis
      by (simp add: TypedElement_init_def type_mapping_primitive_name)
  qed
qed

theorem typed_element_string_resolution_witness:
  "TypedElement_init empty_store ''n'' (StrArg ''Money'') ''private''
     = (Inr \<lparr>te_name = ''n'', te_visibility = ''private'', te_type = PlainTypeRef 0\<rparr>,
        empty_store\<lparr>plain_types := (plain_types empty_store)(0 := ''Money''),
                    next_plain_type := Suc 0\<rparr>)"
proof -
  have v: "''private'' \<in> {''public'', ''private'', ''protected'', ''package''}" by simp
  have n: "''Money'' \<notin> insert ''string'' (range primitive_name)"
    by (simp add: primitive_UNIV)
  have z: "next_plain_type empty_store = 0" by (simp add: empty_store_def)
  from typed_element_string_resolution [OF v, of empty_store "''n''" "''Money''"] n z
  show ?thesis by simp
qed

subsection \<open>The collection setters of DomainModel\<close>

lemma py_add_not_Nil [simp]: "py_add x xs \<noteq> []"
  by (auto simp: py_add_def)

lemma scan_names_Nil_iff:
  "scan_names ns seen dups = [] \<longleftrightarrow> dups = [] \<and> distinct ns \<and> set ns \<inter> set seen = {}"
  by (induction ns arbitrary: seen dups) auto

lemma share_a_name_iff:
  "distinct xs \<Longrightarrow> share_a_name name xs \<longleftrightarrow> \<not> distinct (map name xs)"
  by (auto simp: share_a_name_def distinct_map inj_on_def)

lemma length_remdups_neq_iff: "length xs \<noteq> length (remdups xs) \<longleftrightarrow> \<not> distinct xs"
  by (metis length_remdups_eq remdups_id_iff_distinct)

text \<open>
  C5, as stated, fails for generalizations: the two generalizations 0 and 1 have the same
  general class and the same specific class, a generalization has no name, and the setter
  stores the collection that holds both.
\<close>

theorem generalizations_setter_counterexample:
  "gens store_twins 0 = gens store_twins 1
   \<and> DomainModel_set_generalizations store_twins empty_model (Some [0, 1])
       = (None, empty_model\<lparr>dm_generalizations := [0, 1]\<rparr>)"
  by (simp add: DomainModel_set_generalizations_def store_twins_def store_AB_def
      Generalization_init_def Generalization_set_general_def Generalization_set_specific_def
      Class_add_generalization_def empty_store_def Let_def)

text \<open>
  C5, amended. The four setters of named collections (types, associations, packages,
  constraints) reject the new collection with the duplicate-name error exactly when two of
  its elements share a name, and leave the model as it was; otherwise they store it. The
  setter of types scans and stores the union of the new collection with the eight
  primitive types. The setter of generalizations checks nothing and always stores the new
  collection.
\<close>

theorem domain_model_setters:
  assumes "distinct ts" and "distinct as" and "distinct ps" and "distinct cs"
  shows "DomainModel_set_types h dm ts =
           (if share_a_name (type_name h) (py_update ts primitive_data_types)
            then (Some DuplicateName, dm)
            else (None, dm\<lparr>dm_types := py_update ts primitive_data_types\<rparr>))
    \<and> DomainModel_set_associations h dm (Some as) =
           (if share_a_name (\<lambda>a. a_name (assocs h a)) as then (Some DuplicateName, dm)
            else (None, dm\<lparr>dm_associations := as\<rparr>))
    \<and> DomainModel_set_packages h dm (Some ps) =
           (if share_a_name (packages h) ps then (Some DuplicateName, dm)
            else (None, dm\<lparr>dm_packages := ps\<rparr>))
    \<and> DomainModel_set_constraints h dm (Some cs) =
           (if share_a_name (constraints h) cs then (Some DuplicateName, dm)
            else (None, dm\<lparr>dm_constraints := cs\<rparr>))
    \<and> DomainModel_set_generalizations h dm (Some gs) =
           (None, dm\<lparr>dm_generalizations := gs\<rparr>)"
  using assms
  by (simp add: DomainModel_set_types_def DomainModel_set_associations_def
      DomainModel_set_packages_def DomainModel_set_constraints_def
      DomainModel_set_generalizations_def Let_def scan_names_Nil_iff share_a_name_iff
      length_remdups_neq_iff)

theorem domain_model_setters_witness:
  "DomainModel_set_associations store_lib empty_model (Some [0, 1])
     = (Some DuplicateName, empty_model)
   \<and> DomainModel_set_associations store_lib empty_model (Some [0, 2])
     = (None, empty_model\<lparr>dm_associations := [0, 2]\<rparr>)
   \<and> DomainModel_set_types store_lib empty_model [ClassRef 0, ClassRef 1]
     = (Some DuplicateName, empty_model)"
proof -
  have d: "distinct [ClassRef 0, ClassRef 1]" "distinct [0::nat, 1]" "distinct [0::nat, 2]"
    "distinct ([]::nat list)"
    by simp_all
  have s1: "share_a_name (\<lambda>a. a_name (assocs store_lib a)) [0, 1]"
    by (simp add: share_a_name_def store_lib_def empty_store_def)
  have s2: "\<not> share_a_name (\<lambda>a. a_name (assocs store_lib a)) [0, 2]"
    by (simp add: share_a_name_def store_lib_def empty_store_def)
  have s3: "share_a_name (type_name store_lib)
              (py_update [ClassRef 0, ClassRef 1] primitive_data_types)"
    by (simp add: share_a_name_def store_lib_def empty_store_def py_add_def
        primitive_data_types_def)
  from domain_model_setters [OF d(1) d(2) d(4) d(4), of store_lib empty_model]
    domain_model_setters [OF d(1) d(3) d(4) d(4), of store_lib empty_model] s1 s2 s3
  show ?thesis by simp
qed

subsection \<open>The ends of an association\<close>

lemma class_typed_Cons:
  "class_typed h (e # es) \<longleftrightarrow> (\<exists>c. p_type (props h e) = ClassRef c) \<and> class_typed h es"
  by (cases "p_type (props h e)") (simp_all add: class_typed_def end_types_def)

lemma delete_from_end_types_spec:
  "class_typed h es \<Longrightarrow>
   \<exists>h1. delete_from_end_types h a es = (None, h1)
     \<and> props h1 = props h \<and> assocs h1 = assocs h
     \<and> (\<forall>c. c_associations (classes h1 c) =
           (if ClassRef c \<in> set (end_types h es)
            then removeAll a (c_associations (classes h c))
            else c_associations (classes h c)))"
proof (induction es arbitrary: h)
  case Nil
  then show ?case by (simp add: end_types_def)
next
  case (Cons e es)
  from Cons.prems obtain c where c: "p_type (props h e) = ClassRef c"
    and t: "class_typed h es"
    by (auto simp: class_typed_Cons)
  let ?h = "Class_delete_association h c a"
  have p: "props ?h = props h" "assocs ?h = assocs h"
    by (simp_all add: Class_delete_association_def)
  then have t': "class_typed ?h es" and et: "end_types ?h es = end_types h es"
    using t by (simp_all add: class_typed_def end_types_def)
  from Cons.IH [OF t'] obtain h1 where
    h1: "delete_from_end_types ?h a es = (None, h1)" "props h1 = props ?h"
      "assocs h1 = assocs ?h"
      "\<forall>d. c_associations (classes h1 d) =
           (if ClassRef d \<in> set (end_types ?h es)
            then removeAll a (c_associations (classes ?h d))
            else c_associations (classes ?h d))"
    by blast
  have "c_associations (classes h1 d) =
           (if ClassRef d \<in> set (end_types h (e # es))
            then removeAll a (c_associations (classes h d))
            else c_associations (classes h d))" for d
    using h1(4) c et
    by (auto simp: end_types_def Class_delete_association_def py_discard_def)
  with h1 p c show ?case by simp
qed

lemma add_to_end_types_spec:
  "class_typed h es \<Longrightarrow>
   \<exists>h1. add_to_end_types h a es = (None, h1)
     \<and> assocs h1 = assocs h
     \<and> (\<forall>e. p_type (props h1 e) = p_type (props h e))
     \<and> (\<forall>e. p_owner (props h1 e) = (if e \<in> set es then AssocOwner a else p_owner (props h e)))
     \<and> (\<forall>c. set (c_associations (classes h1 c)) =
           (if ClassRef c \<in> set (end_types h es)
            then insert a (set (c_associations (classes h c)))
            else set (c_associations (classes h c))))
     \<and> (\<forall>c. distinct (c_associations (classes h c)) \<longrightarrow> distinct (c_associations (classes h1 c)))"
proof (induction es arbitrary: h)
  case Nil
  then show ?case by (simp add: end_types_def)
next
  case (Cons e es)
  from Cons.prems obtain c where c: "p_type (props h e) = ClassRef c"
    and t: "class_typed h es"
    by (auto simp: class_typed_Cons)
  let ?ho = "h\<lparr>props := (props h)(e := (props h e)\<lparr>p_owner := AssocOwner a\<rparr>)\<rparr>"
  let ?h = "Class_add_association ?ho c a"
  have so: "Property_set_owner h e (AssocOwner a) = (None, ?ho)"
    by (simp add: Property_set_owner_def)
  have ty: "p_type (props ?h x) = p_type (props h x)" for x
    by (simp add: Class_add_association_def)
  then have et: "end_types ?h es = end_types h es" and t': "class_typed ?h es"
    using t by (simp_all add: class_typed_def end_types_def)
  from Cons.IH [OF t'] obtain h1 where
    h1: "add_to_end_types ?h a es = (None, h1)" "assocs h1 = assocs ?h"
      "\<forall>x. p_type (props h1 x) = p_type (props ?h x)"
      "\<forall>x. p_owner (props h1 x) = (if x \<in> set es then AssocOwner a else p_owner (props ?h x))"
      "\<forall>d. set (c_associations (classes h1 d)) =
           (if ClassRef d \<in> set (end_types ?h es)
            then insert a (set (c_associations (classes ?h d)))
            else set (c_associations (classes ?h d)))"
      "\<forall>d. distinct (c_associations (classes ?h d)) \<longrightarrow> distinct (c_associations (classes h1 d))"
    by blast
  have r: "add_to_end_types h a (e # es) = (None, h1)"
  proof -
    have c0: "p_type (props ?ho e) = ClassRef c" using c by simp
    show ?thesis using so c0 h1(1) by simp
  qed
  have a1: "assocs h1 = assocs h" using h1(2) by (simp add: Class_add_association_def)
  have a2: "\<forall>x. p_type (props h1 x) = p_type (props h x)" using h1(3) ty by simp
  have a3: "\<forall>x. p_owner (props h1 x) =
      (if x \<in> set (e # es) then AssocOwner a else p_owner (props h x))"
    using h1(4) by (simp add: Class_add_association_def)
  have a4: "\<forall>d. set (c_associations (classes h1 d)) =
           (if ClassRef d \<in> set (end_types h (e # es))
            then insert a (set (c_associations (classes h d)))
            else set (c_associations (classes h d)))"
    using h1(5) c et by (auto simp: end_types_def Class_add_association_def)
  have a5: "\<forall>d. distinct (c_associations (classes h d)) \<longrightarrow> distinct (c_associations (classes h1 d))"
  proof (intro allI impI)
    fix d assume d: "distinct (c_associations (classes h d))"
    have "distinct (c_associations (classes ?h d))"
      using d by (auto simp: Class_add_association_def)
    with h1(6) show "distinct (c_associations (classes h1 d))" by blast
  qed
  from r a1 a2 a3 a4 a5 show ?case by blast
qed


lemma Association_set_ends_spec:
  assumes len: "1 < length es"
    and new: "class_typed h es"
    and old: "\<forall>os. a_ends (assocs h a) = Some os \<longrightarrow> class_typed h os"
  shows "\<exists>h'. Association_set_ends h a es = (None, h')
     \<and> a_ends (assocs h' a) = Some es
     \<and> (\<forall>b. b \<noteq> a \<longrightarrow> assocs h' b = assocs h b)
     \<and> (\<forall>e. p_type (props h' e) = p_type (props h e))
     \<and> (\<forall>e. p_owner (props h' e) = (if e \<in> set es then AssocOwner a else p_owner (props h e)))
     \<and> (\<forall>c. set (c_associations (classes h' c)) =
           (if ClassRef c \<in> set (end_types h es)
            then insert a (set (c_associations (classes h c)))
            else if ClassRef c \<in> set (end_types h (case a_ends (assocs h a) of Some os \<Rightarrow> os | None \<Rightarrow> []))
            then set (c_associations (classes h c)) - {a}
            else set (c_associations (classes h c))))
     \<and> (\<forall>c. distinct (c_associations (classes h c)) \<longrightarrow> distinct (c_associations (classes h' c)))"
proof -
  let ?os = "case a_ends (assocs h a) of Some os \<Rightarrow> os | None \<Rightarrow> []"
  let ?first = "case a_ends (assocs h a) of
                 Some old \<Rightarrow> delete_from_end_types h a old
               | None \<Rightarrow> (None, h)"
  have "\<exists>h1. ?first = (None, h1)
     \<and> props h1 = props h \<and> assocs h1 = assocs h
     \<and> (\<forall>c. c_associations (classes h1 c) =
           (if ClassRef c \<in> set (end_types h ?os)
            then removeAll a (c_associations (classes h c))
            else c_associations (classes h c)))"
  proof (cases "a_ends (assocs h a)")
    case None
    then show ?thesis by (simp add: end_types_def)
  next
    case (Some os)
    with old have "class_typed h os" by simp
    from delete_from_end_types_spec [OF this, of a] Some show ?thesis by simp
  qed
  then obtain h1 where h1: "?first = (None, h1)" "props h1 = props h" "assocs h1 = assocs h"
    "\<forall>c. c_associations (classes h1 c) =
           (if ClassRef c \<in> set (end_types h ?os)
            then removeAll a (c_associations (classes h c))
            else c_associations (classes h c))"
    by blast
  have et: "end_types h1 es = end_types h es" and new1: "class_typed h1 es"
    using new h1(2) by (simp_all add: class_typed_def end_types_def)
  from add_to_end_types_spec [OF new1, of a] obtain h2 where
    h2: "add_to_end_types h1 a es = (None, h2)" "assocs h2 = assocs h1"
      "\<forall>e. p_type (props h2 e) = p_type (props h1 e)"
      "\<forall>e. p_owner (props h2 e) = (if e \<in> set es then AssocOwner a else p_owner (props h1 e))"
      "\<forall>c. set (c_associations (classes h2 c)) =
           (if ClassRef c \<in> set (end_types h1 es)
            then insert a (set (c_associations (classes h1 c)))
            else set (c_associations (classes h1 c)))"
      "\<forall>c. distinct (c_associations (classes h1 c)) \<longrightarrow> distinct (c_associations (classes h2 c))"
    by blast
  let ?h' = "h2\<lparr>assocs := (assocs h2)(a := (assocs h2 a)\<lparr>a_ends := Some es\<rparr>)\<rparr>"
  have r: "Association_set_ends h a es = (None, ?h')"
    using len h1(1) h2(1) by (simp add: Association_set_ends_def)
  have d: "\<forall>c. distinct (c_associations (classes h c)) \<longrightarrow> distinct (c_associations (classes ?h' c))"
  proof (intro allI impI)
    fix c assume "distinct (c_associations (classes h c))"
    then have "distinct (c_associations (classes h1 c))"
      using h1(4) by (simp add: distinct_removeAll)
    with h2(6) show "distinct (c_associations (classes ?h' c))" by simp
  qed
  have s: "\<forall>c. set (c_associations (classes ?h' c)) =
           (if ClassRef c \<in> set (end_types h es)
            then insert a (set (c_associations (classes h c)))
            else if ClassRef c \<in> set (end_types h ?os)
            then set (c_associations (classes h c)) - {a}
            else set (c_associations (classes h c)))"
    using h2(5) h1(4) et by auto
  show ?thesis
    using r d s h2(2,3,4) h1(2,3) by (intro exI [of _ ?h']) simp
qed


lemma end_types_cong:
  "(\<forall>e. p_type (props h' e) = p_type (props h e)) \<Longrightarrow> end_types h' es = end_types h es"
  by (simp add: end_types_def)

lemma Association_set_ends_keeps_types:
  assumes "association_refs_exact h" and "class_typed h es"
  shows "p_type (props (snd (Association_set_ends h a es)) e) = p_type (props h e)"
proof (cases "1 < length es")
  case False
  then show ?thesis by (simp add: Association_set_ends_def)
next
  case True
  from assms(1) have "\<forall>os. a_ends (assocs h a) = Some os \<longrightarrow> class_typed h os"
    by (simp add: association_refs_exact_def)
  from Association_set_ends_spec [OF True assms(2) this] show ?thesis by auto
qed

lemma Association_set_ends_preserves:
  assumes inv: "association_refs_exact h" and new: "class_typed h es"
  shows "association_refs_exact (snd (Association_set_ends h a es))"
proof (cases "1 < length es")
  case False
  with inv show ?thesis by (simp add: Association_set_ends_def)
next
  case True
  let ?os = "case a_ends (assocs h a) of Some os \<Rightarrow> os | None \<Rightarrow> []"
  from inv have old: "\<forall>os. a_ends (assocs h a) = Some os \<longrightarrow> class_typed h os"
    by (simp add: association_refs_exact_def)
  from Association_set_ends_spec [OF True new old] obtain h' where
    r: "Association_set_ends h a es = (None, h')"
    and e: "a_ends (assocs h' a) = Some es"
    and o: "\<forall>b. b \<noteq> a \<longrightarrow> assocs h' b = assocs h b"
    and t: "\<forall>e. p_type (props h' e) = p_type (props h e)"
    and s: "\<forall>c. set (c_associations (classes h' c)) =
           (if ClassRef c \<in> set (end_types h es)
            then insert a (set (c_associations (classes h c)))
            else if ClassRef c \<in> set (end_types h ?os)
            then set (c_associations (classes h c)) - {a}
            else set (c_associations (classes h c)))"
    and d: "\<forall>c. distinct (c_associations (classes h c)) \<longrightarrow> distinct (c_associations (classes h' c))"
    by blast
  have et: "end_types h' xs = end_types h xs" for xs
    using t by (simp add: end_types_def)
  from inv have i1: "\<And>c b. b \<in> set (c_associations (classes h c)) \<longleftrightarrow>
        (\<exists>xs. a_ends (assocs h b) = Some xs \<and> ClassRef c \<in> set (end_types h xs))"
    and i2: "\<And>c. distinct (c_associations (classes h c))"
    and i3: "\<And>b xs. a_ends (assocs h b) = Some xs \<Longrightarrow> class_typed h xs"
    by (simp_all add: association_refs_exact_def)
  have p1: "b \<in> set (c_associations (classes h' c)) \<longleftrightarrow>
        (\<exists>xs. a_ends (assocs h' b) = Some xs \<and> ClassRef c \<in> set (end_types h' xs))" for c b
  proof (cases "b = a")
    case True
    have "a \<in> set (c_associations (classes h' c)) \<longleftrightarrow> ClassRef c \<in> set (end_types h es)"
    proof (cases "ClassRef c \<in> set (end_types h es)")
      case True
      then show ?thesis using s by simp
    next
      case nn: False
      show ?thesis
      proof (cases "ClassRef c \<in> set (end_types h ?os)")
        case True
        then show ?thesis using s nn by simp
      next
        case False
        then have "a \<notin> set (c_associations (classes h c))"
          using i1 [of a c] by (auto split: option.splits)
        then show ?thesis using s nn False by simp
      qed
    qed
    then show ?thesis using True e et by simp
  next
    case False
    then have "b \<in> set (c_associations (classes h' c)) \<longleftrightarrow> b \<in> set (c_associations (classes h c))"
      using s by auto
    then show ?thesis using False o i1 [of b c] et by simp
  qed
  have p2: "distinct (c_associations (classes h' c))" for c
    using d i2 by blast
  have p3: "class_typed h' xs" if "a_ends (assocs h' b) = Some xs" for b xs
  proof (cases "b = a")
    case True
    with that e new et show ?thesis by (simp add: class_typed_def)
  next
    case False
    with that o i3 [of b xs] et show ?thesis by (simp add: class_typed_def)
  qed
  have "association_refs_exact h'"
    unfolding association_refs_exact_def using p1 p2 p3 by blast
  with r show ?thesis by simp
qed

lemma assign_ends_preserves:
  "association_refs_exact h \<Longrightarrow> (\<forall>(a, es) \<in> set ops. class_typed h es)
   \<Longrightarrow> association_refs_exact (assign_ends h ops)"
proof (induction ops arbitrary: h)
  case Nil
  then show ?case by simp
next
  case (Cons op ops)
  obtain a es where op: "op = (a, es)" by (cases op)
  let ?h = "snd (Association_set_ends h a es)"
  from Cons.prems op have t: "class_typed h es" by simp
  have i: "association_refs_exact ?h"
    by (rule Association_set_ends_preserves [OF Cons.prems(1) t])
  have "end_types ?h xs = end_types h xs" for xs
    using Association_set_ends_keeps_types [OF Cons.prems(1) t] by (simp add: end_types_def)
  then have "\<forall>(b, bs) \<in> set ops. class_typed ?h bs"
    using Cons.prems(2) by (auto simp: class_typed_def)
  from Cons.IH [OF i this] op show ?case by simp
qed

text \<open>
  C1. An association \<open>a\<close> with the stored ends \<open>old\<close> gets the ends \<open>new\<close> (two or more,
  all typed by classes). The setter raises nothing. Afterwards the class of an old end
  that is the class of no new end does not reference \<open>a\<close>; the class of every new end
  references \<open>a\<close>; every new end is owned by \<open>a\<close>; the new ends are stored. If the
  back-references were exact before, they are exact afterwards, and they stay exact under
  any sequence of assignments of ends to any associations: a class references an
  association exactly when one of its current ends is typed by the class, and never twice.
\<close>

theorem ends_setter_keeps_back_references_exact:
  assumes "a_ends (assocs h a) = Some old" and "class_typed h old"
    and "1 < length new" and "class_typed h new"
  shows "fst (Association_set_ends h a new) = None
    \<and> (\<forall>e c. e \<in> set old \<and> p_type (props (snd (Association_set_ends h a new)) e) = ClassRef c
          \<and> ClassRef c \<notin> set (end_types (snd (Association_set_ends h a new)) new)
          \<longrightarrow> a \<notin> set (c_associations (classes (snd (Association_set_ends h a new)) c)))
    \<and> (\<forall>e c. e \<in> set new \<and> p_type (props (snd (Association_set_ends h a new)) e) = ClassRef c
          \<longrightarrow> a \<in> set (c_associations (classes (snd (Association_set_ends h a new)) c)))
    \<and> (\<forall>e. e \<in> set new
          \<longrightarrow> p_owner (props (snd (Association_set_ends h a new)) e) = AssocOwner a)
    \<and> a_ends (assocs (snd (Association_set_ends h a new)) a) = Some new
    \<and> (association_refs_exact h
          \<longrightarrow> association_refs_exact (snd (Association_set_ends h a new)))
    \<and> (association_refs_exact h \<and> (\<forall>(b, es) \<in> set ops. class_typed h es)
          \<longrightarrow> association_refs_exact (assign_ends h ops))"
proof -
  let ?h' = "snd (Association_set_ends h a new)"
  from assms(1,2) have old: "\<forall>os. a_ends (assocs h a) = Some os \<longrightarrow> class_typed h os"
    by simp
  from Association_set_ends_spec [OF assms(3,4) old] assms(1) obtain h' where
    r: "Association_set_ends h a new = (None, h')"
    and e: "a_ends (assocs h' a) = Some new"
    and t: "\<forall>e. p_type (props h' e) = p_type (props h e)"
    and w: "\<forall>e. p_owner (props h' e) = (if e \<in> set new then AssocOwner a else p_owner (props h e))"
    and s: "\<forall>c. set (c_associations (classes h' c)) =
           (if ClassRef c \<in> set (end_types h new)
            then insert a (set (c_associations (classes h c)))
            else if ClassRef c \<in> set (end_types h old)
            then set (c_associations (classes h c)) - {a}
            else set (c_associations (classes h c)))"
    by auto
  have h': "?h' = h'" using r by simp
  have et: "end_types h' xs = end_types h xs" for xs
    using t by (simp add: end_types_def)
  have c1: "fst (Association_set_ends h a new) = None" using r by simp
  have c2: "\<forall>e c. e \<in> set old \<and> p_type (props ?h' e) = ClassRef c
          \<and> ClassRef c \<notin> set (end_types ?h' new)
          \<longrightarrow> a \<notin> set (c_associations (classes ?h' c))"
  proof (intro allI impI, elim conjE)
    fix e c
    assume "e \<in> set old" "p_type (props ?h' e) = ClassRef c"
      "ClassRef c \<notin> set (end_types ?h' new)"
    then have "ClassRef c \<in> set (end_types h old)" "ClassRef c \<notin> set (end_types h new)"
      using t et h' by (force simp: end_types_def)+
    then show "a \<notin> set (c_associations (classes ?h' c))" using s h' by simp
  qed
  have c3: "\<forall>e c. e \<in> set new \<and> p_type (props ?h' e) = ClassRef c
          \<longrightarrow> a \<in> set (c_associations (classes ?h' c))"
  proof (intro allI impI, elim conjE)
    fix e c
    assume "e \<in> set new" "p_type (props ?h' e) = ClassRef c"
    then have "ClassRef c \<in> set (end_types h new)"
      using t h' by (force simp: end_types_def)
    then show "a \<in> set (c_associations (classes ?h' c))" using s h' by simp
  qed
  have c4: "\<forall>e. e \<in> set new \<longrightarrow> p_owner (props ?h' e) = AssocOwner a"
    using w h' by simp
  have c5: "a_ends (assocs ?h' a) = Some new" using e h' by simp
  have c6: "association_refs_exact h \<longrightarrow> association_refs_exact ?h'"
    using Association_set_ends_preserves [OF _ assms(4)] by blast
  have c7: "association_refs_exact h \<and> (\<forall>(b, es) \<in> set ops. class_typed h es)
          \<longrightarrow> association_refs_exact (assign_ends h ops)"
    using assign_ends_preserves by blast
  from c1 c2 c3 c4 c5 c6 c7 show ?thesis by blast
qed


lemmas store_eval =
  Association_set_ends_def Property_set_owner_def Class_add_association_def
  Class_delete_association_def store_props_def empty_store_def py_add_def py_discard_def
  end_types_def class_typed_def

lemma association_refs_exact_store_props: "association_refs_exact store_props"
  by (simp add: association_refs_exact_def store_props_def empty_store_def)

lemma association_refs_exact_store_assoc: "association_refs_exact store_assoc"
  unfolding store_assoc_def
  by (rule Association_set_ends_preserves [OF association_refs_exact_store_props])
     (simp add: store_eval)

theorem ends_setter_keeps_back_references_exact_witness:
  "fst (Association_set_ends store_assoc 0 [3, 4]) = None
   \<and> 0 \<notin> set (c_associations (classes (snd (Association_set_ends store_assoc 0 [3, 4])) 1))
   \<and> 0 \<in> set (c_associations (classes (snd (Association_set_ends store_assoc 0 [3, 4])) 2))
   \<and> 0 \<in> set (c_associations (classes (snd (Association_set_ends store_assoc 0 [3, 4])) 3))
   \<and> p_owner (props (snd (Association_set_ends store_assoc 0 [3, 4])) 3) = AssocOwner 0
   \<and> association_refs_exact (snd (Association_set_ends store_assoc 0 [3, 4]))"
proof -
  let ?h' = "snd (Association_set_ends store_assoc 0 [3, 4])"
  have a1: "a_ends (assocs store_assoc 0) = Some [1, 2]"
    by (simp add: store_assoc_def store_eval)
  have a2: "class_typed store_assoc [1, 2]"
    by (simp add: store_assoc_def store_eval)
  have a3: "1 < length [3::nat, 4]" by simp
  have a4: "class_typed store_assoc [3, 4]"
    by (simp add: store_assoc_def store_eval)
  note t = ends_setter_keeps_back_references_exact [OF a1 a2 a3 a4, of "[]"]
  have ty: "p_type (props ?h' 1) = ClassRef 1" "p_type (props ?h' 2) = ClassRef 2"
    "p_type (props ?h' 3) = ClassRef 2" "p_type (props ?h' 4) = ClassRef 3"
    by (simp_all add: store_assoc_def store_eval)
  then have n: "ClassRef 1 \<notin> set (end_types ?h' [3, 4])"
    by (simp add: end_types_def)
  from t association_refs_exact_store_assoc ty n show ?thesis
    by (auto simp del: One_nat_def)
qed

subsection \<open>The association ends of a class\<close>

lemma set_discard_own_ends:
  "set (discard_own_ends h c es ends) = set ends - {e \<in> set es. p_type (props h e) = ClassRef c}"
  by (induction es arbitrary: ends) auto

lemma ends_for_subset: "ends_for h c a \<subseteq> set (ends_of h a)"
  by (auto simp: ends_for_def)

lemma association_ends_loop_spec:
  assumes "distinct as"
    and "\<forall>a \<in> set as. a_ends (assocs h a) \<noteq> None"
    and "ends_not_shared h as"
    and "\<forall>a \<in> set as. set (ends_of h a) \<inter> set ends = {}"
  shows "\<exists>r. association_ends_loop h c as ends = Inr r
           \<and> set r = set ends \<union> (\<Union>a \<in> set as. ends_for h c a)"
  using assms
proof (induction as arbitrary: ends)
  case Nil
  then show ?case by simp
next
  case (Cons a as)
  from Cons.prems(2) obtain es where es: "a_ends (assocs h a) = Some es" by auto
  then have eo: "ends_of h a = es" by (simp add: ends_of_def)
  let ?self = "length es = 2 \<and> p_type (props h (es ! 0)) = p_type (props h (es ! 1))"
  let ?ends1 = "py_update ends es"
  let ?next = "if \<not> ?self then discard_own_ends h c es ?ends1 else ?ends1"
  from Cons.prems(4) eo have dj: "set es \<inter> set ends = {}" by simp
  have nx: "set ?next = set ends \<union> ends_for h c a"
    using dj eo by (auto simp: set_discard_own_ends ends_for_def)
  have d: "distinct as" and na: "a \<notin> set as" using Cons.prems(1) by simp_all
  have s: "\<forall>b \<in> set as. a_ends (assocs h b) \<noteq> None" using Cons.prems(2) by simp
  have ns: "ends_not_shared h as" using Cons.prems(3) by (simp add: ends_not_shared_def)
  have dn: "\<forall>b \<in> set as. set (ends_of h b) \<inter> set ?next = {}"
  proof
    fix b assume b: "b \<in> set as"
    with na have "a \<noteq> b" by auto
    with Cons.prems(3) b have "set (ends_of h a) \<inter> set (ends_of h b) = {}"
      by (simp add: ends_not_shared_def)
    moreover from Cons.prems(4) b have "set (ends_of h b) \<inter> set ends = {}" by simp
    ultimately show "set (ends_of h b) \<inter> set ?next = {}"
      using nx ends_for_subset [of h c a] by auto
  qed
  from Cons.IH [OF d s ns dn] obtain r where
    r: "association_ends_loop h c as ?next = Inr r"
      "set r = set ?next \<union> (\<Union>b \<in> set as. ends_for h c b)"
    by blast
  have "association_ends_loop h c (a # as) ends = Inr r"
    using es r(1) by (simp add: Let_def)
  moreover have "set r = set ends \<union> (\<Union>b \<in> set (a # as). ends_for h c b)"
    using r(2) nx by auto
  ultimately show ?case by blast
qed

text \<open>
  C7, amended. Let the associations of the class \<open>c\<close> have ends stored and share no end
  object. For an association \<open>a\<close> of \<open>c\<close> with the ends \<open>es\<close>: if \<open>a\<close> has exactly two ends
  and both have the same type, the result holds both ends of \<open>a\<close>; otherwise it holds
  exactly those ends of \<open>a\<close> whose type is not \<open>c\<close>.
\<close>

theorem association_ends_of_unshared_ends:
  assumes "distinct (c_associations (classes h c))"
    and "\<forall>b \<in> set (c_associations (classes h c)). a_ends (assocs h b) \<noteq> None"
    and "ends_not_shared h (c_associations (classes h c))"
    and "a \<in> set (c_associations (classes h c))"
    and "a_ends (assocs h a) = Some es"
  shows "\<exists>r. Class_association_ends h c = Inr r
     \<and> (if length es = 2 \<and> p_type (props h (es ! 0)) = p_type (props h (es ! 1))
        then set es \<subseteq> set r
        else (\<forall>e \<in> set es. e \<in> set r \<longleftrightarrow> p_type (props h e) \<noteq> ClassRef c))"
proof -
  let ?as = "c_associations (classes h c)"
  have "\<forall>b \<in> set ?as. set (ends_of h b) \<inter> set [] = {}" by simp
  from association_ends_loop_spec [OF assms(1) assms(2) assms(3) this, of c]
  obtain r where r: "Class_association_ends h c = Inr r"
    "set r = (\<Union>b \<in> set ?as. ends_for h c b)"
    by (auto simp: Class_association_ends_def)
  have eo: "ends_of h a = es" using assms(5) by (simp add: ends_of_def)
  have own: "e \<in> set r \<longleftrightarrow> e \<in> ends_for h c a" if "e \<in> set es" for e
  proof
    assume "e \<in> set r"
    with r(2) obtain b where b: "b \<in> set ?as" "e \<in> ends_for h c b" by auto
    with ends_for_subset [of h c b] have "e \<in> set (ends_of h b)" by auto
    with that eo have "set (ends_of h a) \<inter> set (ends_of h b) \<noteq> {}" by auto
    with assms(3,4) b(1) have "a = b" by (auto simp: ends_not_shared_def)
    with b(2) show "e \<in> ends_for h c a" by simp
  next
    assume "e \<in> ends_for h c a"
    with r(2) assms(4) show "e \<in> set r" by auto
  qed
  show ?thesis
  proof (cases "length es = 2 \<and> p_type (props h (es ! 0)) = p_type (props h (es ! 1))")
    case True
    then have "ends_for h c a = set es" using eo by (simp add: ends_for_def)
    with own have "set es \<subseteq> set r" by auto
    with True r(1) show ?thesis by auto
  next
    case False
    then have "ends_for h c a = {e \<in> set es. p_type (props h e) \<noteq> ClassRef c}"
      using eo by (auto simp: ends_for_def)
    with own have "\<forall>e \<in> set es. e \<in> set r \<longleftrightarrow> p_type (props h e) \<noteq> ClassRef c" by auto
    with False r(1) show ?thesis by auto
  qed
qed

theorem association_ends_of_unshared_ends_witness:
  "(\<exists>r. Class_association_ends store_assoc 1 = Inr r \<and> 1 \<notin> set r \<and> 2 \<in> set r)
   \<and> (\<exists>r. Class_association_ends store_self 1 = Inr r \<and> 1 \<in> set r \<and> 5 \<in> set r)"
proof -
  have a: "c_associations (classes store_assoc 1) = [0]"
    "a_ends (assocs store_assoc 0) = Some [1, 2]"
    "p_type (props store_assoc 1) = ClassRef 1" "p_type (props store_assoc 2) = ClassRef 2"
    by (simp_all add: store_assoc_def store_eval)
  have b: "c_associations (classes store_self 1) = [0]"
    "a_ends (assocs store_self 0) = Some [1, 5]"
    "p_type (props store_self 1) = ClassRef 1" "p_type (props store_self 5) = ClassRef 1"
    by (simp_all add: store_self_def store_eval)
  have a1: "distinct (c_associations (classes store_assoc 1))"
    and a2: "\<forall>b \<in> set (c_associations (classes store_assoc 1)). a_ends (assocs store_assoc b) \<noteq> None"
    and a3: "ends_not_shared store_assoc (c_associations (classes store_assoc 1))"
    and a4: "0 \<in> set (c_associations (classes store_assoc 1))"
    using a by (simp_all add: ends_not_shared_def)
  have b1: "distinct (c_associations (classes store_self 1))"
    and b2: "\<forall>b \<in> set (c_associations (classes store_self 1)). a_ends (assocs store_self b) \<noteq> None"
    and b3: "ends_not_shared store_self (c_associations (classes store_self 1))"
    and b4: "0 \<in> set (c_associations (classes store_self 1))"
    using b by (simp_all add: ends_not_shared_def)
  from association_ends_of_unshared_ends [OF a1 a2 a3 a4 a(2)] a(3,4)
  have "\<exists>r. Class_association_ends store_assoc 1 = Inr r \<and> 1 \<notin> set r \<and> 2 \<in> set r"
    by auto
  moreover from association_ends_of_unshared_ends [OF b1 b2 b3 b4 b(2)] b(3,4)
  have "\<exists>r. Class_association_ends store_self 1 = Inr r \<and> 1 \<in> set r \<and> 5 \<in> set r"
    by auto
  ultimately show ?thesis by blast
qed

text \<open>
  C7, as stated, fails when two associations of a class share an end. The class 1 has the
  associations 0 and 1. The association 0 has exactly two ends, 1 and 5, both typed by the
  class 1, and the result for the class 1 does not hold the end 1: it was discarded while
  the association 1 was visited. Visiting the two associations in the other order keeps
  the end 1, an end of the association 1 whose type is the class 1.
\<close>

theorem shared_end_counterexample:
  "c_associations (classes store_shared 1) = [0, 1]
   \<and> a_ends (assocs store_shared 0) = Some [1, 5]
   \<and> a_ends (assocs store_shared 1) = Some [1, 2]
   \<and> p_type (props store_shared 1) = ClassRef 1
   \<and> p_type (props store_shared 5) = ClassRef 1
   \<and> p_type (props store_shared 2) = ClassRef 2
   \<and> Class_association_ends store_shared 1 = Inr [5, 2]
   \<and> association_ends_loop store_shared 1 [1, 0] [] = Inr [2, 1, 5]"
proof -
  have a: "c_associations (classes store_shared 1) = [0, 1]"
    "a_ends (assocs store_shared 0) = Some [1, 5]"
    "a_ends (assocs store_shared 1) = Some [1, 2]"
    "p_type (props store_shared 1) = ClassRef 1"
    "p_type (props store_shared 5) = ClassRef 1"
    "p_type (props store_shared 2) = ClassRef 2"
    by (simp_all add: store_shared_def store_self_def store_eval)
  have b: "Class_association_ends store_shared 1 = Inr [5, 2]"
    unfolding Class_association_ends_def a(1)
    by (simp add: a py_add_def py_discard_def Let_def del: One_nat_def)
  have c: "association_ends_loop store_shared 1 [1, 0] [] = Inr [2, 1, 5]"
    by (simp add: a py_add_def py_discard_def Let_def del: One_nat_def)
  from a b c show ?thesis by blast
qed

subsection \<open>Parents, all parents, all attributes\<close>

lemma parents_loop_spec:
  "\<forall>g \<in> set gs. general (gens h g) \<noteq> None \<Longrightarrow>
   \<exists>ps. parents_loop h c gs acc = Inr ps
     \<and> set ps = set acc \<union> {p. \<exists>g \<in> set gs. general (gens h g) = Some p \<and> p \<noteq> c}"
proof (induction gs arbitrary: acc)
  case Nil
  then show ?case by simp
next
  case (Cons g gs)
  from Cons.prems obtain p where p: "general (gens h g) = Some p" by auto
  from Cons.prems have "\<forall>g \<in> set gs. general (gens h g) \<noteq> None" by simp
  from Cons.IH [OF this, of "if p \<noteq> c then py_add p acc else acc"] p
  show ?case by auto
qed

lemma Class_parents_spec:
  assumes "generals_set h"
  shows "\<exists>ps. Class_parents h c = Inr ps
     \<and> set ps = {p. \<exists>g \<in> set (c_generalizations (classes h c)).
                       general (gens h g) = Some p \<and> p \<noteq> c}"
proof -
  from assms have "\<forall>g \<in> set (c_generalizations (classes h c)). general (gens h g) \<noteq> None"
    by (simp add: generals_set_def)
  from parents_loop_spec [OF this, of c "[]"] show ?thesis
    by (simp add: Class_parents_def)
qed

lemma update_from_each_spec:
  "\<forall>p \<in> set ps. \<exists>r. f p = Inr r \<and> set r = A p \<Longrightarrow>
   \<exists>r. update_from_each f ps acc = Inr r \<and> set r = set acc \<union> (\<Union>p \<in> set ps. A p)"
proof (induction ps arbitrary: acc)
  case Nil
  then show ?case by simp
next
  case (Cons p ps)
  from Cons.prems obtain r where r: "f p = Inr r" "set r = A p" by auto
  from Cons.prems have "\<forall>q \<in> set ps. \<exists>r. f q = Inr r \<and> set r = A q" by simp
  from Cons.IH [OF this, of "py_update acc r"] r show ?case by auto
qed

lemma uniform_depth:
  "\<forall>p \<in> set ps. \<exists>d. \<forall>d' \<ge> d. P d' p \<Longrightarrow> \<exists>d::nat. \<forall>d' \<ge> d. \<forall>p \<in> set ps. P d' p"
proof (induction ps)
  case Nil
  then show ?case by simp
next
  case (Cons p ps)
  then obtain d1 where d1: "\<forall>d' \<ge> d1. P d' p" by auto
  from Cons obtain d2 where d2: "\<forall>d' \<ge> d2. \<forall>q \<in> set ps. P d' q" by auto
  have "\<forall>d' \<ge> max d1 d2. \<forall>q \<in> set (p # ps). P d' q"
    using d1 d2 by auto
  then show ?case by blast
qed

lemma ancestors_unfold:
  "{p. (p, c) \<in> r\<^sup>+} = {p. (p, c) \<in> r} \<union> (\<Union>q \<in> {q. (q, c) \<in> r}. {p. (p, q) \<in> r\<^sup>+})"
proof (intro set_eqI iffI)
  fix p assume "p \<in> {p. (p, c) \<in> r\<^sup>+}"
  then have "(p, c) \<in> r\<^sup>+" by simp
  then show "p \<in> {p. (p, c) \<in> r} \<union> (\<Union>q \<in> {q. (q, c) \<in> r}. {p. (p, q) \<in> r\<^sup>+})"
    by (cases rule: tranclE) auto
next
  fix p assume "p \<in> {p. (p, c) \<in> r} \<union> (\<Union>q \<in> {q. (q, c) \<in> r}. {p. (p, q) \<in> r\<^sup>+})"
  then show "p \<in> {p. (p, c) \<in> r\<^sup>+}" by (auto intro: trancl_into_trancl)
qed

lemma all_parents_total:
  assumes gs: "generals_set h" and fin: "finite (parent_rel h)" and acyc: "acyclic (parent_rel h)"
  shows "\<exists>d. \<forall>d' \<ge> d. \<exists>ps. all_parents d' h c = Inr ps \<and> set ps = {p. (p, c) \<in> (parent_rel h)\<^sup>+}"
proof -
  have "wf (parent_rel h)" using fin acyc by (rule finite_acyclic_wf)
  then show ?thesis
  proof (induction c rule: wf_induct_rule)
    case (less c)
    from Class_parents_spec [OF gs, of c] obtain ps where ps: "Class_parents h c = Inr ps"
      by blast
    then have pr: "set ps = {p. (p, c) \<in> parent_rel h}"
      by (auto simp: parent_rel_def)
    have "\<forall>p \<in> set ps. \<exists>d. \<forall>d' \<ge> d.
            \<exists>r. all_parents d' h p = Inr r \<and> set r = {q. (q, p) \<in> (parent_rel h)\<^sup>+}"
      using less pr by auto
    from uniform_depth [OF this] obtain d where
      d: "\<forall>d' \<ge> d. \<forall>p \<in> set ps.
            \<exists>r. all_parents d' h p = Inr r \<and> set r = {q. (q, p) \<in> (parent_rel h)\<^sup>+}"
      by blast
    have "\<exists>r. all_parents d' h c = Inr r \<and> set r = {p. (p, c) \<in> (parent_rel h)\<^sup>+}"
      if "Suc d \<le> d'" for d'
    proof -
      from that obtain e where e: "d' = Suc e" "d \<le> e" by (cases d') auto
      with d have "\<forall>p \<in> set ps.
            \<exists>r. all_parents e h p = Inr r \<and> set r = {q. (q, p) \<in> (parent_rel h)\<^sup>+}"
        by blast
      from update_from_each_spec [OF this, of "py_update [] ps"] obtain r where
        r: "update_from_each (all_parents e h) ps (py_update [] ps) = Inr r"
          "set r = set (py_update [] ps) \<union> (\<Union>p \<in> set ps. {q. (q, p) \<in> (parent_rel h)\<^sup>+})"
        by blast
      have "set r = {p. (p, c) \<in> (parent_rel h)\<^sup>+}"
        using r(2) pr ancestors_unfold [of c "parent_rel h"] by simp
      with r(1) ps e show ?thesis by simp
    qed
    then show ?case by blast
  qed
qed


lemma update_attributes_set:
  "set (update_attributes h ps acc) = set acc \<union> (\<Union>p \<in> set ps. set (c_attributes (classes h p)))"
  by (induction ps arbitrary: acc) auto

lemmas gen_eval =
  Generalization_init_def Generalization_set_general_def Generalization_set_specific_def
  Class_add_generalization_def Class_delete_generalization_def Let_def py_add_def
  py_discard_def empty_store_def

lemma store_ABC_generalizations:
  "c_generalizations (classes store_ABC c) =
     (if c = 1 then [0] else if c = 2 then [0, 1] else if c = 3 then [1] else [])"
  by (simp add: store_ABC_def store_classes_def gen_eval)

lemma store_ABC_attributes:
  "c_attributes (classes store_ABC c) =
     (if c = 1 then [11] else if c = 2 then [12] else if c = 3 then [13] else [])"
  by (simp add: store_ABC_def store_classes_def gen_eval)

lemma store_ABC_gens:
  "gens store_ABC g =
     (if g = 0 then \<lparr>general = Some 1, specific = Some 2\<rparr>
      else if g = 1 then \<lparr>general = Some 2, specific = Some 3\<rparr>
      else \<lparr>general = None, specific = None\<rparr>)"
  by (simp add: store_ABC_def store_classes_def gen_eval)

lemma store_ABC_parents:
  "Class_parents store_ABC c = Inr (if c = 2 then [1] else if c = 3 then [2] else [])"
  by (simp add: Class_parents_def store_ABC_generalizations store_ABC_gens py_add_def)

lemma store_ABC_generals_set: "generals_set store_ABC"
  by (simp add: generals_set_def store_ABC_generalizations store_ABC_gens)

lemma store_ABC_parent_rel: "parent_rel store_ABC = {(1, 2), (2, 3)}"
  by (auto simp: parent_rel_def store_ABC_parents split: if_splits)

lemma store_ABC_acyclic: "acyclic (parent_rel store_ABC)"
proof (rule acyclicI_order [where f = "\<lambda>c. 3 - c"])
  fix a b :: nat assume "(a, b) \<in> parent_rel store_ABC"
  then show "3 - b < 3 - a" by (auto simp: store_ABC_parent_rel)
qed

lemma store_ABC_all_parents: "all_parents 3 store_ABC 3 = Inr [2, 1]"
  by (simp add: numeral_3_eq_3 store_ABC_parents py_add_def)

text \<open>
  C3, as stated, fails on a cycle. The constructor accepts a generalization with general
  class 2 and specific class 1 after one with general class 1 and specific class 2; then
  the class 1 has the parent 2 and the class 2 has the parent 1, and
  \<^verbatim>\<open>all_parents\<close> of the class 1 exceeds every recursion limit.
\<close>

theorem all_parents_cycle_counterexample:
  "fst (Generalization_init store_AB 1 2 1) = None
   \<and> Class_parents store_cycle 1 = Inr [2]
   \<and> Class_parents store_cycle 2 = Inr [1]
   \<and> (\<forall>d. all_parents d store_cycle 1 = Inl RecursionError)"
proof -
  have a: "fst (Generalization_init store_AB 1 2 1) = None"
    by (simp add: store_AB_def gen_eval)
  have p1: "Class_parents store_cycle 1 = Inr [2]"
    by (simp add: Class_parents_def store_cycle_def store_AB_def gen_eval)
  have p2: "Class_parents store_cycle 2 = Inr [1]"
    by (simp add: Class_parents_def store_cycle_def store_AB_def gen_eval)
  have "all_parents d store_cycle 1 = Inl RecursionError
        \<and> all_parents d store_cycle 2 = Inl RecursionError" for d
    by (induction d) (simp_all add: p1 p2 del: One_nat_def)
  with a p1 p2 show ?thesis by blast
qed

text \<open>
  C3, amended. In a store whose parent relation is finite and acyclic (and where every
  generalization referenced by a class has a general class), \<^verbatim>\<open>c.all_parents()\<close>
  returns for every class \<open>c\<close> once the recursion limit is large enough, and the set it
  returns is the transitive closure of \<^verbatim>\<open>parents()\<close> at \<open>c\<close>.
\<close>

theorem all_parents_is_transitive_closure:
  assumes "generals_set h" and "finite (parent_rel h)" and "acyclic (parent_rel h)"
  shows "\<exists>d. \<forall>d' \<ge> d. \<exists>ps. all_parents d' h c = Inr ps
            \<and> set ps = {p. (p, c) \<in> (parent_rel h)\<^sup>+}"
  using assms by (rule all_parents_total)

theorem all_parents_is_transitive_closure_witness:
  "generals_set store_ABC \<and> finite (parent_rel store_ABC) \<and> acyclic (parent_rel store_ABC)
   \<and> (\<exists>d. \<forall>d' \<ge> d. \<exists>ps. all_parents d' store_ABC 3 = Inr ps
            \<and> set ps = {p. (p, 3) \<in> (parent_rel store_ABC)\<^sup>+})
   \<and> all_parents 3 store_ABC 3 = Inr [2, 1]"
proof -
  have f: "finite (parent_rel store_ABC)" by (simp add: store_ABC_parent_rel)
  from all_parents_is_transitive_closure [OF store_ABC_generals_set f store_ABC_acyclic, of 3]
    store_ABC_generals_set f store_ABC_acyclic store_ABC_all_parents
  show ?thesis by blast
qed

text \<open>
  C6. In a store whose parent relation is finite and acyclic, \<^verbatim>\<open>c.all_attributes()\<close>
  returns once the recursion limit is large enough; the result includes the attributes
  of \<open>c\<close> and is the union of the attributes of \<open>c\<close> with the attributes of all classes
  in \<^verbatim>\<open>c.all_parents()\<close>, which are the classes above \<open>c\<close> in the transitive closure
  of the parent relation.
\<close>

theorem all_attributes_is_union:
  assumes "generals_set h" and "finite (parent_rel h)" and "acyclic (parent_rel h)"
  shows "\<exists>d. \<forall>d' \<ge> d. \<exists>as ps.
            all_attributes d' h c = Inr as \<and> all_parents d' h c = Inr ps
            \<and> set (c_attributes (classes h c)) \<subseteq> set as
            \<and> set as = set (c_attributes (classes h c))
                        \<union> (\<Union>p \<in> set ps. set (c_attributes (classes h p)))
            \<and> set ps = {p. (p, c) \<in> (parent_rel h)\<^sup>+}"
proof -
  from all_parents_total [OF assms, of c] obtain d where
    d: "\<forall>d' \<ge> d. \<exists>ps. all_parents d' h c = Inr ps \<and> set ps = {p. (p, c) \<in> (parent_rel h)\<^sup>+}"
    by blast
  have "\<exists>as ps. all_attributes d' h c = Inr as \<and> all_parents d' h c = Inr ps
            \<and> set (c_attributes (classes h c)) \<subseteq> set as
            \<and> set as = set (c_attributes (classes h c))
                        \<union> (\<Union>p \<in> set ps. set (c_attributes (classes h p)))
            \<and> set ps = {p. (p, c) \<in> (parent_rel h)\<^sup>+}" if "d \<le> d'" for d'
  proof -
    from d that obtain ps where ps: "all_parents d' h c = Inr ps"
      "set ps = {p. (p, c) \<in> (parent_rel h)\<^sup>+}" by blast
    let ?as = "py_update (c_attributes (classes h c)) (update_attributes h ps [])"
    have "all_attributes d' h c = Inr ?as"
      using ps(1) by (simp add: all_attributes_def inherited_attributes_def)
    moreover have "set ?as = set (c_attributes (classes h c))
                        \<union> (\<Union>p \<in> set ps. set (c_attributes (classes h p)))"
      by (simp add: update_attributes_set)
    ultimately show ?thesis using ps by blast
  qed
  then show ?thesis by blast
qed

theorem all_attributes_is_union_witness:
  "(\<exists>d. \<forall>d' \<ge> d. \<exists>as ps.
       all_attributes d' store_ABC 3 = Inr as \<and> all_parents d' store_ABC 3 = Inr ps
       \<and> set (c_attributes (classes store_ABC 3)) \<subseteq> set as
       \<and> set as = set (c_attributes (classes store_ABC 3))
                   \<union> (\<Union>p \<in> set ps. set (c_attributes (classes store_ABC p)))
       \<and> set ps = {p. (p, 3) \<in> (parent_rel store_ABC)\<^sup>+})
   \<and> all_attributes 3 store_ABC 3 = Inr [13, 12, 11]"
proof -
  have f: "finite (parent_rel store_ABC)" by (simp add: store_ABC_parent_rel)
  have e: "all_attributes 3 store_ABC 3 = Inr [13, 12, 11]"
    by (simp add: all_attributes_def inherited_attributes_def store_ABC_all_parents
        store_ABC_attributes py_add_def)
  show ?thesis
    by (rule conjI [OF all_attributes_is_union
          [OF store_ABC_generals_set f store_ABC_acyclic, of 3] e])
qed

subsection \<open>The order of classes by inheritance\<close>





















lemma set_get_classes: "set (get_classes ts) = {c. ClassRef c \<in> set ts}"
  by (induction ts rule: get_classes.induct) auto









subsection \<open>Stores built by the constructor of generalizations\<close>

text \<open>
  In the empty store, and after every call of the constructor or of a setter of a
  generalization, every generalization that a class references has a general class.
\<close>

lemma generals_set_empty_store: "generals_set empty_store"
  by (simp add: generals_set_def empty_store_def)

lemma Generalization_set_general_generals_set:
  assumes "generals_set h"
  shows "generals_set (snd (Generalization_set_general h g c))"
  using assms
  by (auto simp: generals_set_def Generalization_set_general_def Class_add_generalization_def
      Class_delete_generalization_def Let_def split: option.splits if_splits)

lemma Generalization_set_specific_generals_set:
  assumes "generals_set h"
  shows "generals_set (snd (Generalization_set_specific h g c))"
  using assms
  by (auto simp: generals_set_def Generalization_set_specific_def Class_add_generalization_def
      Class_delete_generalization_def Let_def split: option.splits if_splits)

lemma Generalization_init_generals_set:
  assumes "generals_set h"
  shows "generals_set (snd (Generalization_init h g p s))"
proof -
  have "fst (Generalization_set_general h g p) = None"
    by (simp add: Generalization_set_general_def Let_def)
  then have "Generalization_init h g p s
      = Generalization_set_specific (snd (Generalization_set_general h g p)) g s"
    by (cases "Generalization_set_general h g p") (simp add: Generalization_init_def)
  with Generalization_set_specific_generals_set
    [OF Generalization_set_general_generals_set [OF assms]]
  show ?thesis by simp
qed

end
